theory Spec2Isabelle
  imports Main "HOL-Library.Product_Lexorder" "HOL-Library.List_Lexorder"
begin

section \<open>JavaScript strings and the text normalisation of places\<close>

text \<open>
  A JavaScript string is a sequence of UTF-16 code units; the regular expressions of
  \<^verbatim>\<open>src/models/place.ts\<close> and \<^verbatim>\<open>src/routes/admin.ts\<close> carry no \<^verbatim>\<open>u\<close> flag and so
  work on code units. A string is modelled as the list of its code units, a literal is
  written \<open>js ''...''\<close>. An optional argument (\<^verbatim>\<open>string | undefined\<close>) and a nullable
  column (\<^verbatim>\<open>string | null\<close>) are \<open>jsstring option\<close>.
\<close>

type_synonym jsstring = "nat list"

definition js :: "string \<Rightarrow> jsstring" where
  "js s = map of_char s"

text \<open>\<^verbatim>\<open>\d\<close> is \<^verbatim>\<open>[0-9]\<close>; \<^verbatim>\<open>\D\<close> is its complement.\<close>

definition is_digit :: "nat \<Rightarrow> bool" where
  "is_digit c = (48 \<le> c \<and> c \<le> 57)"

text \<open>
  \<^verbatim>\<open>function normalizePhone(phone) { if (!phone) return null;
     const digits = phone.replace(/\D/g, ''); return digits.length === 10 ? digits : null; }\<close>
  The empty string is falsy.
\<close>

definition normalizePhone :: "jsstring option \<Rightarrow> jsstring option" where
  "normalizePhone phone =
     (case phone of
        None \<Rightarrow> None
      | Some p \<Rightarrow>
          if p = [] then None
          else let digits = filter is_digit p
               in if length digits = 10 then Some digits else None)"

text \<open>The marker \<^verbatim>\<open><br/>\<close>.\<close>

definition br_marker :: jsstring where
  "br_marker = [60, 98, 114, 47, 62]"

text \<open>
  \<^verbatim>\<open>text.replace(/\r?\n/g, '<br/>')\<close>: scanning from the left, a carriage return directly
  followed by a line feed, or a line feed alone, is replaced by the marker; every other
  code unit is copied.
\<close>

fun replace_newlines :: "jsstring \<Rightarrow> jsstring" where
  "replace_newlines [] = []"
| "replace_newlines [c] = (if c = 10 then br_marker else [c])"
| "replace_newlines (c # d # cs) =
     (if c = 13 \<and> d = 10 then br_marker @ replace_newlines cs
      else if c = 10 then br_marker @ replace_newlines (d # cs)
      else c # replace_newlines (d # cs))"

text \<open>
  \<^verbatim>\<open>function toHtmlBreaks(text) { if (!text) return null;
     return text.replace(/\r?\n/g, '<br/>'); }\<close>
\<close>

definition toHtmlBreaks :: "jsstring option \<Rightarrow> jsstring option" where
  "toHtmlBreaks text =
     (case text of
        None \<Rightarrow> None
      | Some t \<Rightarrow> if t = [] then None else Some (replace_newlines t))"

text \<open>
  \<^verbatim>\<open>\s\<close> of ECMAScript: tab, line feed, vertical tab, form feed, carriage return, space,
  no-break space, U+1680, U+2000 to U+200A, U+2028, U+2029, U+202F, U+205F, U+3000, U+FEFF.
\<close>

definition is_space :: "nat \<Rightarrow> bool" where
  "is_space c =
     ((9 \<le> c \<and> c \<le> 13) \<or> c = 32 \<or> c = 160 \<or> c = 5760 \<or> (8192 \<le> c \<and> c \<le> 8202)
      \<or> c = 8232 \<or> c = 8233 \<or> c = 8239 \<or> c = 8287 \<or> c = 12288 \<or> c = 65279)"

text \<open>
  The rest of \<^verbatim>\<open>/<br\s*\/?>/gi\<close> after \<^verbatim>\<open><br\<close>: white space, an optional slash, then
  \<^verbatim>\<open>>\<close>. The three classes are disjoint, so the greedy star never backtracks to a
  different match. The result is what follows the match.
\<close>

fun br_tail :: "jsstring \<Rightarrow> jsstring option" where
  "br_tail [] = None"
| "br_tail (c # cs) =
     (if is_space c then br_tail cs
      else if c = 62 then Some cs
      else if c = 47 then (case cs of [] \<Rightarrow> None | d # ds \<Rightarrow> if d = 62 then Some ds else None)
      else None)"

text \<open>A match of \<^verbatim>\<open>/<br\s*\/?>/i\<close> at the head of the string: the letters in either case.\<close>

fun match_br :: "jsstring \<Rightarrow> jsstring option" where
  "match_br (a # b # c # cs) =
     (if a = 60 \<and> (b = 98 \<or> b = 66) \<and> (c = 114 \<or> c = 82) then br_tail cs else None)"
| "match_br _ = None"

lemma br_tail_shorter: "br_tail s = Some r \<Longrightarrow> length r < length s"
  by (induction s) (auto split: if_splits list.splits)

lemma match_br_shorter: "match_br s = Some r \<Longrightarrow> length r < length s"
  by (cases s rule: match_br.cases) (auto split: if_splits dest: br_tail_shorter)

text \<open>\<^verbatim>\<open>s.replace(/<br\s*\/?>/gi, '\n')\<close>.\<close>

function replace_breaks :: "jsstring \<Rightarrow> jsstring" where
  "replace_breaks [] = []"
| "replace_breaks (c # cs) =
     (case match_br (c # cs) of
        Some r \<Rightarrow> 10 # replace_breaks r
      | None \<Rightarrow> c # replace_breaks cs)"
  by pat_completeness auto
termination
proof (relation "measure length")
  show "wf (measure length)" by simp
next
  fix c cs r
  assume "match_br (c # cs) = Some r"
  then have "length r < length (c # cs)" by (rule match_br_shorter)
  then show "(r, c # cs) \<in> measure length" by simp
next
  fix c :: nat and cs :: jsstring
  show "(cs, c # cs) \<in> measure length" by simp
qed

text \<open>
  The edit form of \<^verbatim>\<open>src/routes/admin.ts\<close>:
  \<^verbatim>\<open>specials: place.specials?.replace(/<br\s*\/?>/gi, '\n') || ''\<close>.
\<close>

definition editablePlace_text :: "jsstring option \<Rightarrow> jsstring" where
  "editablePlace_text stored = (case stored of None \<Rightarrow> [] | Some s \<Rightarrow> replace_breaks s)"

text \<open>
  Two properties of a text, used to say where storing and loading is exact: no carriage
  return directly before a line feed, and no match of \<^verbatim>\<open>/<br\s*\/?>/i\<close> anywhere.
\<close>

fun no_crlf :: "jsstring \<Rightarrow> bool" where
  "no_crlf (c # d # cs) = (\<not> (c = 13 \<and> d = 10) \<and> no_crlf (d # cs))"
| "no_crlf _ = True"

fun no_break_marker :: "jsstring \<Rightarrow> bool" where
  "no_break_marker [] = True"
| "no_break_marker (c # cs) = (match_br (c # cs) = None \<and> no_break_marker cs)"

text \<open>The text with every carriage return and line feed pair turned into a line feed.\<close>

fun crlf_to_lf :: "jsstring \<Rightarrow> jsstring" where
  "crlf_to_lf (c # d # cs) =
     (if c = 13 \<and> d = 10 then 10 # crlf_to_lf cs else c # crlf_to_lf (d # cs))"
| "crlf_to_lf cs = cs"

text \<open>
  Truthiness of a \<^verbatim>\<open>string | null | undefined\<close> value, and \<^verbatim>\<open>v || null\<close>.
\<close>

definition truthy :: "jsstring option \<Rightarrow> bool" where
  "truthy v = (case v of None \<Rightarrow> False | Some s \<Rightarrow> s \<noteq> [])"

definition or_null :: "jsstring option \<Rightarrow> jsstring option" where
  "or_null v = (if truthy v then v else None)"


section \<open>The relational store\<close>

text \<open>
  The tables of the two migrations, each a list of rows. A \<^verbatim>\<open>uuid\<close> is held as its text,
  and an id given to an operation is taken to be written as the store writes it.
  Timestamps are natural numbers; \<^verbatim>\<open>NOW()\<close> and the \<^verbatim>\<open>uuid_generate_v4()\<close> default are
  arguments of the operation that runs the statement. \<^verbatim>\<open>sort_order\<close> is an integer. The
  columns keep the names of the schema, with the table as prefix where tags and places
  share a name; \<^verbatim>\<open>notes\<close> is \<open>place_notes\<close>.
\<close>

type_synonym uuid = jsstring

record tag =
  tag_id :: uuid
  tag_value :: jsstring
  tag_display :: jsstring
  tag_sort_order :: int
  parent_tag_id :: "uuid option"
  has_children :: bool
  tag_created_at :: nat
  tag_updated_at :: nat

record place_row =
  place_id :: uuid
  place_name :: jsstring
  address :: "jsstring option"
  phone :: "jsstring option"
  url :: "jsstring option"
  specials :: "jsstring option"
  categories :: "jsstring option"
  place_notes :: "jsstring option"
  place_created_at :: nat
  place_updated_at :: nat

text \<open>\<^verbatim>\<open>interface Place\<close>: the columns and the aggregated tag values.\<close>

record place = place_row +
  tags :: "jsstring list"

record db =
  tags_table :: "tag list"
  places_table :: "place_row list"
  place_tags_table :: "(uuid \<times> uuid) list"

text \<open>
  What a statement can raise. \<open>StorageFailure\<close> stands for every failure the model does
  not compute (a lost connection, a timeout of the pool, a text too long for its column,
  a number outside the integers of the column); the others are the constraints of the
  schema.
\<close>

datatype error = StorageFailure | UniqueViolation | ForeignKeyViolation | NotNullViolation

text \<open>
  A statement maps the store to an error or to its result and the new store. Whether the
  store fails on a statement is not decided by the program: every operation takes a
  fault plan \<open>fails\<close>, and \<open>fails k\<close> says that the \<open>k\<close>-th query call of the
  operation's body (in program order, from 0) fails.
\<close>

definition query :: "bool \<Rightarrow> (db \<Rightarrow> error + 'a \<times> db) \<Rightarrow> db \<Rightarrow> error + 'a \<times> db" where
  "query failed stmt d = (if failed then Inl StorageFailure else stmt d)"

text \<open>
  \<^verbatim>\<open>withTransaction\<close> of \<^verbatim>\<open>src/db.ts\<close>: the callback works on the client's view of the
  store; COMMIT makes that view the store, ROLLBACK leaves the store as it was and the
  error is thrown again. A failure of BEGIN or of COMMIT has the outcome of a failure of
  the callback's first or last statement and is not told apart from it.
\<close>

definition withTransaction :: "(db \<Rightarrow> error + 'a \<times> db) \<Rightarrow> db \<Rightarrow> (error + 'a) \<times> db" where
  "withTransaction callback d =
     (case callback d of
        Inl e \<Rightarrow> (Inl e, d)
      | Inr (a, client) \<Rightarrow> (Inr a, client))"

subsection \<open>Statements on tags\<close>

text \<open>
  \<^verbatim>\<open>ON DELETE CASCADE\<close> of \<^verbatim>\<open>tags.parent_tag_id\<close>: with the tags \<open>ds\<close> deleted, every tag
  whose parent is among them is deleted too, and so on until nothing is added.
\<close>

definition referencing :: "tag list \<Rightarrow> uuid list \<Rightarrow> uuid list" where
  "referencing ts ds =
     filter (\<lambda>i. i \<notin> set ds)
       (map tag_id (filter (\<lambda>t. case parent_tag_id t of None \<Rightarrow> False | Some p \<Rightarrow> p \<in> set ds) ts))"

lemma referencing_less:
  assumes "referencing ts ds \<noteq> []"
  shows "card (tag_id ` set ts - set (ds @ referencing ts ds)) < card (tag_id ` set ts - set ds)"
proof -
  from assms obtain i where i: "i \<in> set (referencing ts ds)"
    by (cases "referencing ts ds") auto
  then have "i \<in> tag_id ` set ts - set ds" by (auto simp: referencing_def)
  moreover have "i \<notin> tag_id ` set ts - set (ds @ referencing ts ds)" using i by simp
  moreover have "tag_id ` set ts - set (ds @ referencing ts ds) \<subseteq> tag_id ` set ts - set ds"
    by auto
  ultimately have "tag_id ` set ts - set (ds @ referencing ts ds) \<subset> tag_id ` set ts - set ds"
    by blast
  then show ?thesis by (simp add: psubset_card_mono)
qed

function cascade :: "tag list \<Rightarrow> uuid list \<Rightarrow> uuid list" where
  "cascade ts ds =
     (if referencing ts ds = [] then ds else cascade ts (ds @ referencing ts ds))"
  by pat_completeness auto
termination
proof (relation "measure (\<lambda>(ts, ds). card (tag_id ` set ts - set ds))")
  show "wf (measure (\<lambda>(ts, ds). card (tag_id ` set ts - set ds)))" by simp
next
  fix ts :: "tag list" and ds :: "uuid list"
  assume "referencing ts ds \<noteq> []"
  then have "card (tag_id ` set ts - set (ds @ referencing ts ds)) < card (tag_id ` set ts - set ds)"
    by (rule referencing_less)
  then show "((ts, ds @ referencing ts ds), (ts, ds))
      \<in> measure (\<lambda>(ts, ds). card (tag_id ` set ts - set ds))"
    by simp
qed

declare cascade.simps [simp del]

text \<open>
  \<^verbatim>\<open>DELETE FROM tags WHERE id = ANY($1)\<close>: the rows named, the tags below them, and (by the
  cascade of \<^verbatim>\<open>place_tags.tag_id\<close>) the junction rows of all of these. The row count is
  that of the rows named.
\<close>

definition delete_tags :: "uuid list \<Rightarrow> db \<Rightarrow> error + nat \<times> db" where
  "delete_tags ids d =
     (let named = filter (\<lambda>t. tag_id t \<in> set ids) (tags_table d);
          gone = cascade (tags_table d) (map tag_id named)
      in Inr (length named,
              d\<lparr>tags_table := filter (\<lambda>t. tag_id t \<notin> set gone) (tags_table d),
                place_tags_table := filter (\<lambda>(p, t). t \<notin> set gone) (place_tags_table d)\<rparr>))"

text \<open>\<^verbatim>\<open>DELETE FROM place_tags WHERE tag_id = $1\<close>.\<close>

definition delete_place_tags_of_tag :: "uuid \<Rightarrow> db \<Rightarrow> error + nat \<times> db" where
  "delete_place_tags_of_tag i d =
     Inr (length (filter (\<lambda>(p, t). t = i) (place_tags_table d)),
          d\<lparr>place_tags_table := filter (\<lambda>(p, t). t \<noteq> i) (place_tags_table d)\<rparr>)"

text \<open>
  \<^verbatim>\<open>INSERT INTO tags (value, display, sort_order, parent_tag_id) VALUES ($1, $2, $3, $4)
  RETURNING ...\<close>: the new row gets the generated id, \<^verbatim>\<open>has_children = false\<close> and both
  timestamps. An undefined parameter is sent as NULL. The primary key, the unique
  \<^verbatim>\<open>value\<close> and the reference of \<^verbatim>\<open>parent_tag_id\<close> are checked.
\<close>

definition insert_tag ::
  "uuid \<Rightarrow> nat \<Rightarrow> jsstring option \<Rightarrow> jsstring option \<Rightarrow> int option \<Rightarrow> uuid option \<Rightarrow>
   db \<Rightarrow> error + tag \<times> db" where
  "insert_tag new_id now v dis so parent d =
     (case (v, dis, so) of
        (Some v', Some dis', Some so') \<Rightarrow>
          let row = \<lparr>tag_id = new_id, tag_value = v', tag_display = dis', tag_sort_order = so',
                     parent_tag_id = parent, has_children = False,
                     tag_created_at = now, tag_updated_at = now\<rparr>
          in if new_id \<in> tag_id ` set (tags_table d) then Inl UniqueViolation
             else if v' \<in> tag_value ` set (tags_table d) then Inl UniqueViolation
             else if (case parent of None \<Rightarrow> False
                      | Some p \<Rightarrow> p \<notin> tag_id ` set (tags_table d @ [row]))
               then Inl ForeignKeyViolation
             else Inr (row, d\<lparr>tags_table := tags_table d @ [row]\<rparr>)
      | _ \<Rightarrow> Inl NotNullViolation)"

text \<open>
  The assignment clauses that \<^verbatim>\<open>TagModel.update\<close> and \<^verbatim>\<open>bulkSave\<close> put after \<^verbatim>\<open>SET\<close>, each
  with its parameter.
\<close>

datatype tag_assignment =
    SetValue jsstring
  | SetDisplay "jsstring option"
  | SetSortOrder "int option"
  | SetParent "uuid option"
  | SetTagUpdatedAt nat

fun assign_tag :: "tag_assignment \<Rightarrow> tag \<Rightarrow> tag" where
  "assign_tag (SetValue v) t = t\<lparr>tag_value := v\<rparr>"
| "assign_tag (SetDisplay dis) t = (case dis of None \<Rightarrow> t | Some x \<Rightarrow> t\<lparr>tag_display := x\<rparr>)"
| "assign_tag (SetSortOrder so) t = (case so of None \<Rightarrow> t | Some x \<Rightarrow> t\<lparr>tag_sort_order := x\<rparr>)"
| "assign_tag (SetParent p) t = t\<lparr>parent_tag_id := p\<rparr>"
| "assign_tag (SetTagUpdatedAt now) t = t\<lparr>tag_updated_at := now\<rparr>"

text \<open>A NULL parameter for a \<^verbatim>\<open>NOT NULL\<close> column.\<close>

fun null_assignment :: "tag_assignment \<Rightarrow> bool" where
  "null_assignment (SetDisplay None) = True"
| "null_assignment (SetSortOrder None) = True"
| "null_assignment _ = False"

text \<open>
  \<^verbatim>\<open>UPDATE tags SET ... WHERE id = $n RETURNING ...\<close>: the assignments are applied to the
  rows with that id; the new value must not be that of another row, the new parent must
  be the id of a row. The result is the rows updated.
\<close>

definition update_tags :: "tag_assignment list \<Rightarrow> uuid \<Rightarrow> db \<Rightarrow> error + tag list \<times> db" where
  "update_tags updates i d =
     (let upd = (\<lambda>t. fold assign_tag updates t);
          hit = filter (\<lambda>t. tag_id t = i) (tags_table d);
          others = filter (\<lambda>t. tag_id t \<noteq> i) (tags_table d)
      in if hit \<noteq> [] \<and> (\<exists>u \<in> set updates. null_assignment u) then Inl NotNullViolation
         else if \<exists>t \<in> set hit. tag_value (upd t) \<in> tag_value ` set others
           then Inl UniqueViolation
         else if \<exists>t \<in> set hit. (case parent_tag_id (upd t) of None \<Rightarrow> False
                                   | Some p \<Rightarrow> p \<notin> tag_id ` set (tags_table d))
           then Inl ForeignKeyViolation
         else Inr (map upd hit,
                   d\<lparr>tags_table := map (\<lambda>t. if tag_id t = i then upd t else t) (tags_table d)\<rparr>))"

text \<open>
  \<^verbatim>\<open>UPDATE tags SET has_children = EXISTS(SELECT 1 FROM tags WHERE parent_tag_id = $1)
  WHERE id = $1\<close>.
\<close>

definition set_has_children :: "uuid \<Rightarrow> db \<Rightarrow> error + unit \<times> db" where
  "set_has_children i d =
     Inr ((), d\<lparr>tags_table :=
                 map (\<lambda>t. if tag_id t = i
                          then t\<lparr>has_children := (\<exists>c \<in> set (tags_table d). parent_tag_id c = Some i)\<rparr>
                          else t)
                   (tags_table d)\<rparr>)"

text \<open>\<^verbatim>\<open>SELECT ... FROM tags WHERE id = $1\<close>, then \<^verbatim>\<open>result.rows[0] || null\<close>.\<close>

definition find_tag :: "db \<Rightarrow> uuid \<Rightarrow> tag option" where
  "find_tag d i =
     (case filter (\<lambda>t. tag_id t = i) (tags_table d) of [] \<Rightarrow> None | t # _ \<Rightarrow> Some t)"

definition select_tag_by_id :: "uuid \<Rightarrow> db \<Rightarrow> error + tag option \<times> db" where
  "select_tag_by_id i d = Inr (find_tag d i, d)"

text \<open>
  \<^verbatim>\<open>SELECT ... FROM tags ORDER BY sort_order ASC, value ASC\<close>. The order of text is the
  collation of the database; \<open>collate\<close> gives the sort key of a text under it.
\<close>

definition select_all_tags :: "(jsstring \<Rightarrow> 'k::linorder) \<Rightarrow> db \<Rightarrow> error + tag list \<times> db" where
  "select_all_tags collate d =
     Inr (sort_key (\<lambda>t. (tag_sort_order t, collate (tag_value t))) (tags_table d), d)"


section \<open>The tag model\<close>

text \<open>
  \<^verbatim>\<open>interface TagInput\<close>, also as \<^verbatim>\<open>Partial<TagInput>\<close>: a field that is undefined is
  \<open>None\<close>; \<^verbatim>\<open>parent_tag_id\<close> may also be null (\<open>Some None\<close>).
\<close>

record tag_input =
  in_value :: "jsstring option"
  in_display :: "jsstring option"
  in_sort_order :: "int option"
  in_parent_tag_id :: "jsstring option option"

text \<open>\<^verbatim>\<open>data.parent_tag_id || null\<close>.\<close>

definition parent_or_null :: "jsstring option option \<Rightarrow> uuid option" where
  "parent_or_null v = (case v of None \<Rightarrow> None | Some x \<Rightarrow> or_null x)"

record tag_with_children = tag +
  children :: "tag list"

record structured_tags =
  parents :: "tag_with_children list"
  standalone :: "tag list"

definition TagModel_findAll ::
  "(nat \<Rightarrow> bool) \<Rightarrow> (jsstring \<Rightarrow> 'k::linorder) \<Rightarrow> db \<Rightarrow> error + tag list" where
  "TagModel_findAll fails collate d =
     (case query (fails 0) (select_all_tags collate) d of
        Inl e \<Rightarrow> Inl e
      | Inr (rows, _) \<Rightarrow> Inr rows)"

text \<open>
  The loop of \<^verbatim>\<open>findAllStructured\<close> that fills \<^verbatim>\<open>childrenByParent\<close>: the key is the
  child's \<^verbatim>\<open>parent_tag_id\<close>; a key not yet there starts with the empty array, then the
  child is pushed.
\<close>

fun group_children :: "tag list \<Rightarrow> (uuid option \<rightharpoonup> tag list) \<Rightarrow> (uuid option \<rightharpoonup> tag list)" where
  "group_children [] m = m"
| "group_children (child # rest) m =
     (let parentId = parent_tag_id child;
          m1 = (if m parentId = None then m(parentId \<mapsto> []) else m)
      in group_children rest
           (m1(parentId \<mapsto> (case m1 parentId of None \<Rightarrow> [] | Some cs \<Rightarrow> cs) @ [child])))"

definition TagModel_findAllStructured ::
  "(nat \<Rightarrow> bool) \<Rightarrow> (jsstring \<Rightarrow> 'k::linorder) \<Rightarrow> db \<Rightarrow> error + structured_tags" where
  "TagModel_findAllStructured fails collate d =
     (case TagModel_findAll fails collate d of
        Inl e \<Rightarrow> Inl e
      | Inr allTags \<Rightarrow>
          let parentTags = filter has_children allTags;
              childTags = filter (\<lambda>t. parent_tag_id t \<noteq> None) allTags;
              standaloneTags = filter (\<lambda>t. \<not> has_children t \<and> parent_tag_id t = None) allTags;
              childrenByParent = group_children childTags Map.empty;
              parents = map (\<lambda>parent. tag.extend parent
                               (tag_with_children.fields
                                 (case childrenByParent (Some (tag_id parent)) of
                                    None \<Rightarrow> [] | Some cs \<Rightarrow> cs)))
                          parentTags
          in Inr \<lparr>parents = parents, standalone = standaloneTags\<rparr>)"

text \<open>
  \<^verbatim>\<open>if (parentId) { await TagModel.updateHasChildren(parentId); }\<close>: the recomputation
  for a parent that is truthy, nothing for null, undefined and the empty string.
\<close>

definition updateHasChildren :: "bool \<Rightarrow> uuid \<Rightarrow> db \<Rightarrow> error + unit \<times> db" where
  "updateHasChildren failed tagId d = query failed (set_has_children tagId) d"

definition updateHasChildren_if :: "bool \<Rightarrow> uuid option \<Rightarrow> db \<Rightarrow> error + unit \<times> db" where
  "updateHasChildren_if failed parentId d =
     (case parentId of
        None \<Rightarrow> Inr ((), d)
      | Some p \<Rightarrow> if p = [] then Inr ((), d) else updateHasChildren failed p d)"

text \<open>
  The three writing operations run their statements with \<^verbatim>\<open>query\<close> on the pool, outside
  any transaction: each statement is committed when it returns, so the store that an
  operation leaves behind when a statement fails is the one its earlier statements built.
  The result is the value returned or the error thrown, and the store.
\<close>

definition TagModel_create ::
  "(nat \<Rightarrow> bool) \<Rightarrow> uuid \<Rightarrow> nat \<Rightarrow> tag_input \<Rightarrow> db \<Rightarrow> (error + tag) \<times> db" where
  "TagModel_create fails new_id now data d =
     (case query (fails 0)
             (insert_tag new_id now (in_value data) (in_display data) (in_sort_order data)
                (parent_or_null (in_parent_tag_id data))) d of
        Inl e \<Rightarrow> (Inl e, d)
      | Inr (row, d1) \<Rightarrow>
          (case updateHasChildren_if (fails 1) (parent_or_null (in_parent_tag_id data)) d1 of
             Inl e \<Rightarrow> (Inl e, d1)
           | Inr (_, d2) \<Rightarrow> (Inr row, d2)))"

text \<open>The clauses pushed on \<^verbatim>\<open>updates\<close> by \<^verbatim>\<open>TagModel.update\<close>, in its order.\<close>

definition tag_updates :: "tag_input \<Rightarrow> tag_assignment list" where
  "tag_updates data =
     (case in_value data of None \<Rightarrow> [] | Some v \<Rightarrow> [SetValue v]) @
     (case in_display data of None \<Rightarrow> [] | Some x \<Rightarrow> [SetDisplay (Some x)]) @
     (case in_sort_order data of None \<Rightarrow> [] | Some x \<Rightarrow> [SetSortOrder (Some x)]) @
     (case in_parent_tag_id data of None \<Rightarrow> [] | Some p \<Rightarrow> [SetParent (or_null p)])"

definition TagModel_update ::
  "(nat \<Rightarrow> bool) \<Rightarrow> nat \<Rightarrow> uuid \<Rightarrow> tag_input \<Rightarrow> db \<Rightarrow> (error + tag option) \<times> db" where
  "TagModel_update fails now i data d =
     (case query (fails 0) (select_tag_by_id i) d of
        Inl e \<Rightarrow> (Inl e, d)
      | Inr (None, _) \<Rightarrow> (Inr None, d)
      | Inr (Some oldTag, _) \<Rightarrow>
          if tag_updates data = [] then (Inr (Some oldTag), d)
          else
            (case query (fails 1) (update_tags (tag_updates data @ [SetTagUpdatedAt now]) i) d of
               Inl e \<Rightarrow> (Inl e, d)
             | Inr (rows, d1) \<Rightarrow>
                 let result = (case rows of [] \<Rightarrow> None | r # _ \<Rightarrow> Some r) in
                 (case in_parent_tag_id data of
                    None \<Rightarrow> (Inr result, d1)
                  | Some p \<Rightarrow>
                      let oldParentId = parent_tag_id oldTag;
                          newParentId = or_null p
                      in if oldParentId \<noteq> newParentId then
                           (case updateHasChildren_if (fails 2) oldParentId d1 of
                              Inl e \<Rightarrow> (Inl e, d1)
                            | Inr (_, d2) \<Rightarrow>
                                (case updateHasChildren_if (fails 3) newParentId d2 of
                                   Inl e \<Rightarrow> (Inl e, d2)
                                 | Inr (_, d3) \<Rightarrow> (Inr result, d3)))
                         else (Inr result, d1))))"

definition TagModel_delete :: "(nat \<Rightarrow> bool) \<Rightarrow> uuid \<Rightarrow> db \<Rightarrow> (error + bool) \<times> db" where
  "TagModel_delete fails i d =
     (case query (fails 0) (select_tag_by_id i) d of
        Inl e \<Rightarrow> (Inl e, d)
      | Inr (None, _) \<Rightarrow> (Inr False, d)
      | Inr (Some tag, _) \<Rightarrow>
          let parentId = parent_tag_id tag in
          (case query (fails 1) (delete_place_tags_of_tag i) d of
             Inl e \<Rightarrow> (Inl e, d)
           | Inr (_, d1) \<Rightarrow>
               (case query (fails 2) (delete_tags [i]) d1 of
                  Inl e \<Rightarrow> (Inl e, d1)
                | Inr (rowCount, d2) \<Rightarrow>
                    (case updateHasChildren_if (fails 3) parentId d2 of
                       Inl e \<Rightarrow> (Inl e, d2)
                     | Inr (_, d3) \<Rightarrow> (Inr (rowCount > 0), d3)))))"

text \<open>
  \<^verbatim>\<open>bulkSave\<close> (its argument \<^verbatim>\<open>tags\<close> is \<open>inputs\<close> here): the loop over the input. The \<open>k\<close>-th input is looked up in
  \<^verbatim>\<open>existingByValue\<close>, the map built before anything was deleted; a tag found is
  updated by its id, another is inserted with the id \<open>gen k\<close>.
\<close>

definition discard :: "error + 'a \<times> db \<Rightarrow> error + unit \<times> db" where
  "discard r = (case r of Inl e \<Rightarrow> Inl e | Inr (_, d) \<Rightarrow> Inr ((), d))"

fun upsert_tags ::
  "(nat \<Rightarrow> bool) \<Rightarrow> (nat \<Rightarrow> uuid) \<Rightarrow> nat \<Rightarrow> (jsstring \<rightharpoonup> tag) \<Rightarrow> nat \<Rightarrow> tag_input list \<Rightarrow>
   db \<Rightarrow> error + unit \<times> db" where
  "upsert_tags fails gen now existingByValue k [] client = Inr ((), client)"
| "upsert_tags fails gen now existingByValue k (tag # rest) client =
     (case (case (case in_value tag of None \<Rightarrow> None | Some v \<Rightarrow> existingByValue v) of
              Some existing \<Rightarrow>
                discard (query (fails (2 + k))
                  (update_tags [SetDisplay (in_display tag), SetSortOrder (in_sort_order tag),
                                SetTagUpdatedAt now] (tag_id existing)) client)
            | None \<Rightarrow>
                discard (query (fails (2 + k))
                  (insert_tag (gen k) now (in_value tag) (in_display tag) (in_sort_order tag)
                     (parent_or_null (in_parent_tag_id tag))) client)) of
        Inl e \<Rightarrow> Inl e
      | Inr (_, client1) \<Rightarrow> upsert_tags fails gen now existingByValue (Suc k) rest client1)"

definition TagModel_bulkSave ::
  "(nat \<Rightarrow> bool) \<Rightarrow> (nat \<Rightarrow> uuid) \<Rightarrow> nat \<Rightarrow> (jsstring \<Rightarrow> 'k::linorder) \<Rightarrow> tag_input list \<Rightarrow>
   db \<Rightarrow> (error + tag list) \<times> db" where
  "TagModel_bulkSave fails gen now collate inputs d =
     withTransaction (\<lambda>client.
       case query (fails 0) (\<lambda>c. Inr (tags_table c, c)) client of
         Inl e \<Rightarrow> Inl e
       | Inr (existing, _) \<Rightarrow>
           let existingByValue = map_of (rev (map (\<lambda>t. (tag_value t, t)) existing));
               newValues = set (map in_value inputs);
               toDelete = filter (\<lambda>t. Some (tag_value t) \<notin> newValues) existing
           in (case (if toDelete \<noteq> []
                     then discard (query (fails 1) (delete_tags (map tag_id toDelete)) client)
                     else Inr ((), client)) of
                 Inl e \<Rightarrow> Inl e
               | Inr (_, client1) \<Rightarrow>
                   (case upsert_tags fails gen now existingByValue 0 inputs client1 of
                      Inl e \<Rightarrow> Inl e
                    | Inr (_, client2) \<Rightarrow>
                        query (fails (2 + length inputs)) (select_all_tags collate) client2))) d"


section \<open>The place model\<close>

subsection \<open>Statements on places\<close>

text \<open>
  \<^verbatim>\<open>COALESCE(array_agg(t.value ORDER BY t.sort_order) FILTER (WHERE t.value IS NOT NULL),
  ARRAY[]::varchar[])\<close> over the two left joins, for the place \<open>i\<close>: the values of the
  tags its junction rows name, in the order of \<^verbatim>\<open>sort_order\<close>.
\<close>

definition joined_tags :: "db \<Rightarrow> uuid \<Rightarrow> tag list" where
  "joined_tags d i =
     concat (map (\<lambda>(p, t). if p = i then filter (\<lambda>x. tag_id x = t) (tags_table d) else [])
               (place_tags_table d))"

definition place_tag_values :: "db \<Rightarrow> uuid \<Rightarrow> jsstring list" where
  "place_tag_values d i = map tag_value (sort_key tag_sort_order (joined_tags d i))"

definition with_tags :: "db \<Rightarrow> place_row \<Rightarrow> place" where
  "with_tags d r = place_row.extend r (place.fields (place_tag_values d (place_id r)))"

text \<open>
  \<^verbatim>\<open>SELECT pt2.place_id FROM place_tags pt2 JOIN tags t2 ON pt2.tag_id = t2.id
  WHERE t2.value = $1\<close>.
\<close>

definition tagged_place_ids :: "db \<Rightarrow> jsstring \<Rightarrow> uuid list" where
  "tagged_place_ids d v =
     concat (map (\<lambda>(p, t). map (\<lambda>x. p) (filter (\<lambda>x. tag_id x = t \<and> tag_value x = v) (tags_table d)))
               (place_tags_table d))"

text \<open>
  The query of \<^verbatim>\<open>findAll\<close>: one row for each place (\<^verbatim>\<open>GROUP BY p.id\<close>, the primary key),
  the \<^verbatim>\<open>WHERE p.id IN (...)\<close> clause only when \<^verbatim>\<open>options?.tag\<close> is truthy,
  \<^verbatim>\<open>ORDER BY p.name ASC\<close> under the collation.
\<close>

definition select_places ::
  "(jsstring \<Rightarrow> 'k::linorder) \<Rightarrow> jsstring option \<Rightarrow> db \<Rightarrow> error + place list \<times> db" where
  "select_places collate tag_filter d =
     Inr (sort_key (\<lambda>p. collate (place_name p))
            (map (with_tags d)
               (filter (\<lambda>r. case tag_filter of
                               None \<Rightarrow> True
                             | Some v \<Rightarrow> if v = [] then True
                                        else place_id r \<in> set (tagged_place_ids d v))
                  (places_table d))), d)"

definition select_place_by_id :: "uuid \<Rightarrow> db \<Rightarrow> error + place option \<times> db" where
  "select_place_by_id i d =
     Inr (case filter (\<lambda>r. place_id r = i) (places_table d) of
            [] \<Rightarrow> None
          | r # _ \<Rightarrow> Some (with_tags d r), d)"

text \<open>
  \<^verbatim>\<open>INSERT INTO places (name, address, phone, url, specials, categories, notes)
  VALUES (...) RETURNING ...\<close>.
\<close>

definition insert_place ::
  "uuid \<Rightarrow> nat \<Rightarrow> jsstring option \<Rightarrow> jsstring option \<Rightarrow> jsstring option \<Rightarrow> jsstring option \<Rightarrow>
   jsstring option \<Rightarrow> jsstring option \<Rightarrow> jsstring option \<Rightarrow> db \<Rightarrow> error + place_row \<times> db" where
  "insert_place new_id now nm addr ph u sp cat nt d =
     (case nm of
        None \<Rightarrow> Inl NotNullViolation
      | Some n \<Rightarrow>
          let row = \<lparr>place_id = new_id, place_name = n, address = addr, phone = ph, url = u,
                     specials = sp, categories = cat, place_notes = nt,
                     place_created_at = now, place_updated_at = now\<rparr>
          in if new_id \<in> place_id ` set (places_table d) then Inl UniqueViolation
             else Inr (row, d\<lparr>places_table := places_table d @ [row]\<rparr>))"

datatype place_assignment =
    SetName jsstring
  | SetAddress "jsstring option"
  | SetPhone "jsstring option"
  | SetUrl "jsstring option"
  | SetSpecials "jsstring option"
  | SetCategories "jsstring option"
  | SetNotes "jsstring option"
  | SetPlaceUpdatedAt nat

fun assign_place :: "place_assignment \<Rightarrow> place_row \<Rightarrow> place_row" where
  "assign_place (SetName n) r = r\<lparr>place_name := n\<rparr>"
| "assign_place (SetAddress v) r = r\<lparr>address := v\<rparr>"
| "assign_place (SetPhone v) r = r\<lparr>phone := v\<rparr>"
| "assign_place (SetUrl v) r = r\<lparr>url := v\<rparr>"
| "assign_place (SetSpecials v) r = r\<lparr>specials := v\<rparr>"
| "assign_place (SetCategories v) r = r\<lparr>categories := v\<rparr>"
| "assign_place (SetNotes v) r = r\<lparr>place_notes := v\<rparr>"
| "assign_place (SetPlaceUpdatedAt now) r = r\<lparr>place_updated_at := now\<rparr>"

text \<open>\<^verbatim>\<open>UPDATE places SET ... WHERE id = $n RETURNING id\<close>.\<close>

definition update_places :: "place_assignment list \<Rightarrow> uuid \<Rightarrow> db \<Rightarrow> error + uuid list \<times> db" where
  "update_places updates i d =
     Inr (map place_id (filter (\<lambda>r. place_id r = i) (places_table d)),
          d\<lparr>places_table :=
              map (\<lambda>r. if place_id r = i then fold assign_place updates r else r) (places_table d)\<rparr>)"

text \<open>
  \<^verbatim>\<open>DELETE FROM places WHERE id = $1\<close>, with the cascade of \<^verbatim>\<open>place_tags.place_id\<close>.
\<close>

definition delete_place :: "uuid \<Rightarrow> db \<Rightarrow> error + nat \<times> db" where
  "delete_place i d =
     Inr (length (filter (\<lambda>r. place_id r = i) (places_table d)),
          d\<lparr>places_table := filter (\<lambda>r. place_id r \<noteq> i) (places_table d),
            place_tags_table := filter (\<lambda>(p, t). p \<noteq> i) (place_tags_table d)\<rparr>)"

text \<open>\<^verbatim>\<open>DELETE FROM place_tags WHERE place_id = $1\<close>.\<close>

definition delete_place_tags_of_place :: "uuid \<Rightarrow> db \<Rightarrow> error + nat \<times> db" where
  "delete_place_tags_of_place i d =
     Inr (length (filter (\<lambda>(p, t). p = i) (place_tags_table d)),
          d\<lparr>place_tags_table := filter (\<lambda>(p, t). p \<noteq> i) (place_tags_table d)\<rparr>)"

text \<open>
  \<^verbatim>\<open>INSERT INTO place_tags (place_id, tag_id) SELECT $1, id FROM tags WHERE value = ANY($2)\<close>:
  the place must exist when a row is inserted, and the pairs are a primary key.
\<close>

definition insert_place_tags :: "uuid \<Rightarrow> jsstring list \<Rightarrow> db \<Rightarrow> error + nat \<times> db" where
  "insert_place_tags placeId tagValues d =
     (let rows = map (\<lambda>t. (placeId, tag_id t))
                   (filter (\<lambda>t. tag_value t \<in> set tagValues) (tags_table d))
      in if rows \<noteq> [] \<and> placeId \<notin> place_id ` set (places_table d) then Inl ForeignKeyViolation
         else if \<not> distinct (place_tags_table d @ rows) then Inl UniqueViolation
         else Inr (length rows, d\<lparr>place_tags_table := place_tags_table d @ rows\<rparr>))"

subsection \<open>Operations\<close>

record place_input =
  in_name :: "jsstring option"
  in_address :: "jsstring option"
  in_phone :: "jsstring option"
  in_url :: "jsstring option"
  in_specials :: "jsstring option"
  in_categories :: "jsstring option"
  in_notes :: "jsstring option"
  in_tags :: "jsstring list option"

definition PlaceModel_findAll ::
  "(nat \<Rightarrow> bool) \<Rightarrow> (jsstring \<Rightarrow> 'k::linorder) \<Rightarrow> jsstring option \<Rightarrow> db \<Rightarrow> error + place list" where
  "PlaceModel_findAll fails collate tag_filter d =
     (case query (fails 0) (select_places collate tag_filter) d of
        Inl e \<Rightarrow> Inl e
      | Inr (rows, _) \<Rightarrow> Inr rows)"

definition PlaceModel_findById :: "bool \<Rightarrow> uuid \<Rightarrow> db \<Rightarrow> error + place option" where
  "PlaceModel_findById failed i d =
     (case query failed (select_place_by_id i) d of
        Inl e \<Rightarrow> Inl e
      | Inr (r, _) \<Rightarrow> Inr r)"

text \<open>
  \<^verbatim>\<open>setTags(client, placeId, tagValues)\<close>; \<open>k\<close> is the number of its first query call in
  the calling operation.
\<close>

definition setTags ::
  "(nat \<Rightarrow> bool) \<Rightarrow> nat \<Rightarrow> uuid \<Rightarrow> jsstring list \<Rightarrow> db \<Rightarrow> error + unit \<times> db" where
  "setTags fails k placeId tagValues client =
     (case query (fails k) (delete_place_tags_of_place placeId) client of
        Inl e \<Rightarrow> Inl e
      | Inr (_, client1) \<Rightarrow>
          if tagValues = [] then Inr ((), client1)
          else discard (query (fails (Suc k)) (insert_place_tags placeId tagValues) client1))"

text \<open>
  \<^verbatim>\<open>create\<close> and \<^verbatim>\<open>update\<close> run in \<^verbatim>\<open>withTransaction\<close>. Their statements go to the
  transaction's client, but the last step, \<^verbatim>\<open>PlaceModel.findById\<close>, calls \<^verbatim>\<open>query\<close> on
  the pool while the transaction is still open: it reads the committed store \<open>d\<close>, not
  the client's view.
\<close>

definition PlaceModel_create ::
  "(nat \<Rightarrow> bool) \<Rightarrow> uuid \<Rightarrow> nat \<Rightarrow> place_input \<Rightarrow> db \<Rightarrow> (error + place option) \<times> db" where
  "PlaceModel_create fails new_id now data d =
     withTransaction (\<lambda>client.
       case query (fails 0)
              (insert_place new_id now (in_name data) (or_null (in_address data))
                 (normalizePhone (in_phone data)) (or_null (in_url data))
                 (toHtmlBreaks (in_specials data)) (or_null (in_categories data))
                 (toHtmlBreaks (in_notes data))) client of
         Inl e \<Rightarrow> Inl e
       | Inr (place, client1) \<Rightarrow>
           (case (case in_tags data of
                    None \<Rightarrow> Inr ((), client1)
                  | Some ts \<Rightarrow> if length ts > 0 then setTags fails 1 (place_id place) ts client1
                             else Inr ((), client1)) of
              Inl e \<Rightarrow> Inl e
            | Inr (_, client2) \<Rightarrow>
                (case PlaceModel_findById (fails 3) (place_id place) d of
                   Inl e \<Rightarrow> Inl e
                 | Inr r \<Rightarrow> Inr (r, client2)))) d"

text \<open>The clauses pushed on \<^verbatim>\<open>updates\<close> by \<^verbatim>\<open>PlaceModel.update\<close>, in its order.\<close>

definition place_updates :: "place_input \<Rightarrow> place_assignment list" where
  "place_updates data =
     (case in_name data of None \<Rightarrow> [] | Some v \<Rightarrow> [SetName v]) @
     (case in_address data of None \<Rightarrow> [] | Some v \<Rightarrow> [SetAddress (or_null (Some v))]) @
     (case in_phone data of None \<Rightarrow> [] | Some v \<Rightarrow> [SetPhone (normalizePhone (Some v))]) @
     (case in_url data of None \<Rightarrow> [] | Some v \<Rightarrow> [SetUrl (or_null (Some v))]) @
     (case in_specials data of None \<Rightarrow> [] | Some v \<Rightarrow> [SetSpecials (toHtmlBreaks (Some v))]) @
     (case in_categories data of None \<Rightarrow> [] | Some v \<Rightarrow> [SetCategories (or_null (Some v))]) @
     (case in_notes data of None \<Rightarrow> [] | Some v \<Rightarrow> [SetNotes (toHtmlBreaks (Some v))])"

definition PlaceModel_update ::
  "(nat \<Rightarrow> bool) \<Rightarrow> nat \<Rightarrow> uuid \<Rightarrow> place_input \<Rightarrow> db \<Rightarrow> (error + place option) \<times> db" where
  "PlaceModel_update fails now i data d =
     withTransaction (\<lambda>client.
       let updates = place_updates data @ [SetPlaceUpdatedAt now] in
       case (if length updates > 1
             then (case query (fails 0) (update_places updates i) client of
                     Inl e \<Rightarrow> Inl e
                   | Inr (ids, client1) \<Rightarrow> Inr (length ids = 0, client1))
             else Inr (False, client)) of
         Inl e \<Rightarrow> Inl e
       | Inr (not_found, client1) \<Rightarrow>
           if not_found then Inr (None, client1)
           else
             (case (case in_tags data of
                      None \<Rightarrow> Inr ((), client1)
                    | Some ts \<Rightarrow> setTags fails 1 i ts client1) of
                Inl e \<Rightarrow> Inl e
              | Inr (_, client2) \<Rightarrow>
                  (case PlaceModel_findById (fails 3) i d of
                     Inl e \<Rightarrow> Inl e
                   | Inr r \<Rightarrow> Inr (r, client2)))) d"

definition PlaceModel_delete :: "(nat \<Rightarrow> bool) \<Rightarrow> uuid \<Rightarrow> db \<Rightarrow> (error + bool) \<times> db" where
  "PlaceModel_delete fails i d =
     (case query (fails 0) (delete_place i) d of
        Inl e \<Rightarrow> (Inl e, d)
      | Inr (rowCount, d1) \<Rightarrow> (Inr (rowCount > 0), d1))"


section \<open>Notions used in the statements\<close>

text \<open>
  The rows that reference the tag \<open>q\<close> as their parent: its children (the tag itself is
  among them when it is its own parent), and those of them that are other tags.
\<close>

definition child_rows :: "db \<Rightarrow> uuid \<Rightarrow> tag list" where
  "child_rows d q = filter (\<lambda>c. parent_tag_id c = Some q) (tags_table d)"

definition other_child_rows :: "db \<Rightarrow> uuid \<Rightarrow> tag list" where
  "other_child_rows d q = filter (\<lambda>c. tag_id c \<noteq> q) (child_rows d q)"

text \<open>The id and the parent of every tag row: what the child sets are made of.\<close>

definition links :: "db \<Rightarrow> (uuid \<times> uuid option) list" where
  "links d = map (\<lambda>t. (tag_id t, parent_tag_id t)) (tags_table d)"

text \<open>The ids of the tags that deleting the tag \<open>i\<close> removes, cascade included.\<close>

definition doomed :: "db \<Rightarrow> uuid \<Rightarrow> uuid list" where
  "doomed d i = cascade (tags_table d) (map tag_id (filter (\<lambda>t. tag_id t = i) (tags_table d)))"

text \<open>
  The parent that a patch names: the id when \<^verbatim>\<open>parent_tag_id\<close> is a string that is not
  empty; no parent when it is null, the empty string or not supplied.
\<close>

definition supplied_parent :: "jsstring option option \<Rightarrow> uuid option" where
  "supplied_parent v =
     (case v of
        None \<Rightarrow> None
      | Some None \<Rightarrow> None
      | Some (Some s) \<Rightarrow> (if s = [] then None else Some s))"

text \<open>
  A tag row with only the supplied fields of a patch applied, and \<^verbatim>\<open>updated_at\<close> set: a
  supplied value, display or sort order is the new one; a supplied \<^verbatim>\<open>parent_tag_id\<close> makes
  the parent the one the patch names.
\<close>

definition only_supplied :: "nat \<Rightarrow> tag_input \<Rightarrow> tag \<Rightarrow> tag" where
  "only_supplied now data t =
     t\<lparr>tag_value := (case in_value data of None \<Rightarrow> tag_value t | Some v \<Rightarrow> v),
       tag_display := (case in_display data of None \<Rightarrow> tag_display t | Some v \<Rightarrow> v),
       tag_sort_order := (case in_sort_order data of None \<Rightarrow> tag_sort_order t | Some v \<Rightarrow> v),
       parent_tag_id := (case in_parent_tag_id data of
                           None \<Rightarrow> parent_tag_id t
                         | Some None \<Rightarrow> None
                         | Some (Some s) \<Rightarrow> (if s = [] then None else Some s)),
       tag_updated_at := now\<rparr>"


text \<open>The tag set of a store by value, display and sort order.\<close>

definition tag_triples :: "db \<Rightarrow> (jsstring \<times> jsstring \<times> int) set" where
  "tag_triples d = (\<lambda>t. (tag_value t, tag_display t, tag_sort_order t)) ` set (tags_table d)"


section \<open>An example store\<close>

text \<open>
  A store with the tag "food", its child "pizza", and one place tagged with both; the
  store never fails under \<open>no_faults\<close>.
\<close>

definition no_faults :: "nat \<Rightarrow> bool" where
  "no_faults k = False"

definition food :: tag where
  "food = \<lparr>tag_id = js ''t1'', tag_value = js ''food'', tag_display = js ''Food'',
            tag_sort_order = 1, parent_tag_id = None, has_children = True,
            tag_created_at = 1, tag_updated_at = 1\<rparr>"

definition pizza :: tag where
  "pizza = \<lparr>tag_id = js ''t2'', tag_value = js ''pizza'', tag_display = js ''Pizza'',
             tag_sort_order = 1, parent_tag_id = Some (js ''t1''), has_children = False,
             tag_created_at = 2, tag_updated_at = 2\<rparr>"

definition joes_bar :: place_row where
  "joes_bar = \<lparr>place_id = js ''p1'', place_name = js ''Joe's Bar'', address = None,
                phone = Some (js ''2125550000''), url = None, specials = None,
                categories = None, place_notes = None,
                place_created_at = 3, place_updated_at = 3\<rparr>"

definition village :: db where
  "village = \<lparr>tags_table = [food, pizza], places_table = [joes_bar],
               place_tags_table = [(js ''p1'', js ''t1''), (js ''p1'', js ''t2'')]\<rparr>"

definition cafe :: place_input where
  "cafe = \<lparr>in_name = Some (js ''Cafe''), in_address = None,
            in_phone = Some (js ''(212) 555-1234''), in_url = None,
            in_specials = Some [97, 10, 98], in_categories = None, in_notes = None,
            in_tags = Some [js ''food'']\<rparr>"

text \<open>The patch \<^verbatim>\<open>{parent_tag_id: null}\<close>.\<close>

definition orphan_patch :: tag_input where
  "orphan_patch = \<lparr>in_value = None, in_display = None, in_sort_order = None,
                    in_parent_tag_id = Some None\<rparr>"




text \<open>The patch \<^verbatim>\<open>{}\<close>: no field supplied.\<close>

definition empty_patch :: place_input where
  "empty_patch = \<lparr>in_name = None, in_address = None, in_phone = None, in_url = None,
                   in_specials = None, in_categories = None, in_notes = None,
                   in_tags = None\<rparr>"

text \<open>
  A store in which the tag "food" is its own parent and also the parent of "pizza"; an
  input for \<^verbatim>\<open>bulkSave\<close> that names "pizza" only.
\<close>

definition own_parent :: tag where
  "own_parent = \<lparr>tag_id = js ''t1'', tag_value = js ''food'', tag_display = js ''Food'',
            tag_sort_order = 1, parent_tag_id = Some (js ''t1''), has_children = True,
            tag_created_at = 1, tag_updated_at = 4\<rparr>"

definition loop_db :: db where
  "loop_db = \<lparr>tags_table = [own_parent, pizza], places_table = [], place_tags_table = []\<rparr>"

definition pizza_input :: tag_input where
  "pizza_input = \<lparr>in_value = Some (js ''pizza''), in_display = Some (js ''Pizza''),
                   in_sort_order = Some 1, in_parent_tag_id = None\<rparr>"

text \<open>
  The store that one \<^verbatim>\<open>bulkSave\<close> of "pizza" alone leaves of the example store, and the
  row that a second one inserts.
\<close>

definition after_once :: db where
  "after_once = \<lparr>tags_table = [], places_table = [joes_bar], place_tags_table = []\<rparr>"

definition new_pizza :: tag where
  "new_pizza = \<lparr>tag_id = js ''n2'', tag_value = js ''pizza'', tag_display = js ''Pizza'',
                 tag_sort_order = 1, parent_tag_id = None, has_children = False,
                 tag_created_at = 9, tag_updated_at = 9\<rparr>"

lemmas example_defs = no_faults_def food_def pizza_def joes_bar_def village_def cafe_def js_def

lemmas tag_model_defs = TagModel_create_def TagModel_update_def TagModel_delete_def
  query_def select_tag_by_id_def find_tag_def delete_place_tags_of_tag_def delete_tags_def
  updateHasChildren_if_def updateHasChildren_def set_has_children_def insert_tag_def
  update_tags_def tag_updates_def parent_or_null_def or_null_def truthy_def
  referencing_def Let_def

lemmas bulk_defs = TagModel_bulkSave_def withTransaction_def upsert_tags.simps discard_def
  select_all_tags_def

lemmas place_model_defs = PlaceModel_create_def PlaceModel_update_def withTransaction_def
  query_def insert_place_def setTags_def discard_def delete_place_tags_of_place_def
  insert_place_tags_def PlaceModel_findById_def select_place_by_id_def or_null_def truthy_def
  normalizePhone_def toHtmlBreaks_def is_digit_def br_marker_def update_places_def
  place_updates_def Let_def

section \<open>Text normalisation: phone numbers and line breaks\<close>

lemma setTags_places: "setTags fails k i ts c = Inr (u, c') \<Longrightarrow> places_table c' = places_table c"
  by (auto simp: setTags_def query_def discard_def delete_place_tags_of_place_def
        insert_place_tags_def Let_def split: if_splits sum.splits prod.splits)

lemma PlaceModel_create_row:
  assumes "PlaceModel_create fails new_id now data d = (Inr r, d')"
  shows "\<exists>nm. in_name data = Some nm \<and>
           places_table d' = places_table d @
             [\<lparr>place_id = new_id, place_name = nm, address = or_null (in_address data),
               phone = normalizePhone (in_phone data), url = or_null (in_url data),
               specials = toHtmlBreaks (in_specials data),
               categories = or_null (in_categories data),
               place_notes = toHtmlBreaks (in_notes data),
               place_created_at = now, place_updated_at = now\<rparr>]"
proof -
  from assms obtain row c1 c2 u where
    ins: "query (fails 0)
            (insert_place new_id now (in_name data) (or_null (in_address data))
               (normalizePhone (in_phone data)) (or_null (in_url data))
               (toHtmlBreaks (in_specials data)) (or_null (in_categories data))
               (toHtmlBreaks (in_notes data))) d = Inr (row, c1)"
    and st: "c2 = c1 \<or> (\<exists>ts. setTags fails 1 (place_id row) ts c1 = Inr (u, c2))"
    and d': "d' = c2"
    by (auto simp: PlaceModel_create_def withTransaction_def
          split: sum.splits prod.splits option.splits if_splits)
  from st have "places_table c2 = places_table c1" by (auto dest: setTags_places)
  with ins d' show ?thesis
    by (auto simp: query_def insert_place_def Let_def split: if_splits option.splits)
qed

lemma PlaceModel_update_rows:
  assumes "PlaceModel_update fails now i data d = (Inr r, d')"
    and "place_updates data \<noteq> []"
  shows "places_table d' =
           map (\<lambda>r. if place_id r = i
                    then fold assign_place (place_updates data @ [SetPlaceUpdatedAt now]) r
                    else r) (places_table d)"
proof -
  let ?ups = "place_updates data @ [SetPlaceUpdatedAt now]"
  from assms(2) have len: "length ?ups > 1" by (cases "place_updates data") auto
  with assms(1) obtain ids c1 c2 u where
    up: "query (fails 0) (update_places ?ups i) d = Inr (ids, c1)"
    and st: "c2 = c1 \<or> (\<exists>ts. setTags fails 1 i ts c1 = Inr (u, c2))"
    and d': "d' = c2"
    by (auto simp: PlaceModel_update_def withTransaction_def Let_def
          split: sum.splits prod.splits option.splits if_splits)
  from st have "places_table c2 = places_table c1" by (auto dest: setTags_places)
  with up d' show ?thesis
    by (auto simp: query_def update_places_def split: if_splits)
qed

lemma fold_assign_place_phone:
  "in_phone data = Some p \<Longrightarrow>
   phone (fold assign_place (place_updates data @ [SetPlaceUpdatedAt now]) r) =
     normalizePhone (Some p)"
  by (simp add: place_updates_def split: option.splits)

text \<open>
  Claim C5. For every phone input string, what is stored is the string with every
  non-digit removed when exactly ten digits remain, and null otherwise: this is what
  \<open>normalizePhone\<close> returns, what a completed \<^verbatim>\<open>create\<close> puts in the \<^verbatim>\<open>phone\<close> column of the
  row it inserts, and what a completed \<^verbatim>\<open>update\<close> with a phone in the patch puts in the
  \<^verbatim>\<open>phone\<close> column of the place updated. "(212) 555-1234" is stored as "2125551234",
  "555-1234" as null.
\<close>

theorem C5_phone_normalisation:
  "normalizePhone (Some p) =
     (if length (filter is_digit p) = 10 then Some (filter is_digit p) else None)
   \<and> (PlaceModel_create fails new_id now data d = (Inr r, d') \<longrightarrow>
        (\<exists>row. places_table d' = places_table d @ [row] \<and> place_id row = new_id \<and>
           phone row = normalizePhone (in_phone data)))
   \<and> (PlaceModel_update fails now i data d = (Inr r, d') \<and> in_phone data = Some p \<longrightarrow>
        (\<forall>row \<in> set (places_table d'). place_id row = i \<longrightarrow>
           phone row = normalizePhone (Some p)))
   \<and> normalizePhone (Some (js ''(212) 555-1234'')) = Some (js ''2125551234'')
   \<and> normalizePhone (Some (js ''555-1234'')) = None"
proof (intro conjI impI)
  show "normalizePhone (Some p) =
     (if length (filter is_digit p) = 10 then Some (filter is_digit p) else None)"
    by (simp add: normalizePhone_def)
next
  assume "PlaceModel_create fails new_id now data d = (Inr r, d')"
  from PlaceModel_create_row [OF this]
  show "\<exists>row. places_table d' = places_table d @ [row] \<and> place_id row = new_id \<and>
           phone row = normalizePhone (in_phone data)"
    by auto
next
  assume a: "PlaceModel_update fails now i data d = (Inr r, d') \<and> in_phone data = Some p"
  then have ne: "place_updates data \<noteq> []" by (simp add: place_updates_def)
  from a have "places_table d' =
      map (\<lambda>r. if place_id r = i
               then fold assign_place (place_updates data @ [SetPlaceUpdatedAt now]) r
               else r) (places_table d)"
    using PlaceModel_update_rows [OF _ ne] by blast
  moreover have "\<And>x. phone (fold assign_place (place_updates data @ [SetPlaceUpdatedAt now]) x)
      = normalizePhone (Some p)"
    using a fold_assign_place_phone [of data p now] by blast
  ultimately show "\<forall>row \<in> set (places_table d'). place_id row = i \<longrightarrow>
           phone row = normalizePhone (Some p)"
    by auto
next
  show "normalizePhone (Some (js ''(212) 555-1234'')) = Some (js ''2125551234'')"
    by (simp add: normalizePhone_def js_def is_digit_def)
next
  show "normalizePhone (Some (js ''555-1234'')) = None"
    by (simp add: normalizePhone_def js_def is_digit_def)
qed

theorem C5_phone_normalisation_witness:
  "(\<exists>row. places_table (snd (PlaceModel_create no_faults (js ''p2'') 7 cafe village)) =
            places_table village @ [row] \<and>
          place_id row = js ''p2'' \<and> phone row = Some (js ''2125551234''))
   \<and> places_table (snd (PlaceModel_update no_faults 9 (js ''p1'')
                           (empty_patch\<lparr>in_phone := Some (js ''555-1234'')\<rparr>) village))
       = [joes_bar\<lparr>phone := None, place_updated_at := 9\<rparr>]
   \<and> phone (joes_bar\<lparr>phone := None, place_updated_at := 9\<rparr>)
       = normalizePhone (Some (js ''555-1234''))"
proof -
  obtain r d' where run: "PlaceModel_create no_faults (js ''p2'') 7 cafe village = (r, d')"
    by (cases "PlaceModel_create no_faults (js ''p2'') 7 cafe village")
  have r: "r = Inr None"
    using run by (simp add: example_defs place_model_defs)
  have ph: "normalizePhone (in_phone cafe) = Some (js ''2125551234'')"
    by (simp add: example_defs normalizePhone_def is_digit_def)
  from C5_phone_normalisation [where fails = no_faults and new_id = "js ''p2''" and now = 7
      and data = cafe and d = village and r = None and d' = d']
  have "\<exists>row. places_table d' = places_table village @ [row] \<and> place_id row = js ''p2'' \<and>
           phone row = normalizePhone (in_phone cafe)"
    using run r by blast
  with ph run have one: "\<exists>row. places_table (snd (PlaceModel_create no_faults (js ''p2'') 7 cafe
            village)) = places_table village @ [row] \<and>
          place_id row = js ''p2'' \<and> phone row = Some (js ''2125551234'')"
    by simp
  let ?patch = "empty_patch\<lparr>in_phone := Some (js ''555-1234'')\<rparr>"
  let ?row = "joes_bar\<lparr>phone := None, place_updated_at := 9\<rparr>"
  have run2: "PlaceModel_update no_faults 9 (js ''p1'') ?patch village
      = (Inr (Some (with_tags village joes_bar)), village\<lparr>places_table := [?row]\<rparr>)"
    by (simp add: example_defs place_model_defs empty_patch_def)
  have p: "in_phone ?patch = Some (js ''555-1234'')" by simp
  from C5_phone_normalisation [where fails = no_faults and now = 9 and i = "js ''p1''"
      and data = ?patch and d = village and r = "Some (with_tags village joes_bar)"
      and d' = "village\<lparr>places_table := [?row]\<rparr>" and p = "js ''555-1234''"] run2 p
  have "\<forall>row \<in> set (places_table (village\<lparr>places_table := [?row]\<rparr>)).
          place_id row = js ''p1'' \<longrightarrow> phone row = normalizePhone (Some (js ''555-1234''))"
    by blast
  then have two: "phone ?row = normalizePhone (Some (js ''555-1234''))"
    by (simp add: joes_bar_def)
  from one run2 two show ?thesis by simp
qed

lemma replace_breaks_marker: "replace_breaks (br_marker @ s) = 10 # replace_breaks s"
  by (simp add: br_marker_def is_space_def)

lemma replace_newlines_head:
  "replace_newlines s = x # r \<Longrightarrow> x \<noteq> 60 \<Longrightarrow> \<exists>r'. s = x # r'"
  by (cases s rule: replace_newlines.cases) (auto simp: br_marker_def split: if_splits)

lemma br_tail_replace_newlines:
  "br_tail (replace_newlines s) = Some r \<Longrightarrow> br_tail s \<noteq> None"
proof (induction s arbitrary: r rule: replace_newlines.induct)
  case 1
  then show ?case by simp
next
  case (2 c)
  then show ?case by (auto simp: br_marker_def is_space_def split: if_splits)
next
  case (3 c d cs)
  show ?case
  proof (cases "(c = 13 \<and> d = 10) \<or> c = 10")
    case True
    with 3(4) show ?thesis by (auto simp: br_marker_def is_space_def split: if_splits)
  next
    case False
    then have rn: "replace_newlines (c # d # cs) = c # replace_newlines (d # cs)" by auto
    show ?thesis
    proof (cases "is_space c")
      case True
      with 3(4) rn have "br_tail (replace_newlines (d # cs)) = Some r" by simp
      with 3(3) False have "br_tail (d # cs) \<noteq> None" by blast
      with True show ?thesis by simp
    next
      case sp: False
      show ?thesis
      proof (cases "c = 62")
        case True
        with sp show ?thesis by simp
      next
        case ne: False
        with 3(4) rn sp have c47: "c = 47" by (auto split: if_splits)
        with 3(4) rn sp ne obtain t where "replace_newlines (d # cs) = 62 # t"
          by (auto split: list.splits if_splits)
        then obtain t' where "d # cs = 62 # t'" using replace_newlines_head by fastforce
        with c47 sp show ?thesis by simp
      qed
    qed
  qed
qed

lemma match_br_replace_newlines:
  assumes "match_br (c # replace_newlines s) = Some r"
  shows "match_br (c # s) \<noteq> None"
proof -
  from assms obtain b x t where rn: "replace_newlines s = b # x # t"
    by (cases "replace_newlines s" rule: replace_newlines.cases) auto
  with assms have c: "c = 60" and b: "b = 98 \<or> b = 66" and x: "x = 114 \<or> x = 82"
    and t: "br_tail t = Some r"
    by (auto split: if_splits)
  from rn b obtain s1 where s1: "s = b # s1" using replace_newlines_head by fastforce
  have bn: "b \<noteq> 10" "b \<noteq> 13" using b by auto
  with rn s1 have rn1: "replace_newlines s1 = x # t"
    by (cases s1) (auto split: if_splits)
  with x obtain s2 where s2: "s1 = x # s2" using replace_newlines_head by fastforce
  have xn: "x \<noteq> 10" "x \<noteq> 13" using x by auto
  with rn1 s2 have "replace_newlines s2 = t"
    by (cases s2) (auto split: if_splits)
  with t have "br_tail s2 \<noteq> None" using br_tail_replace_newlines by blast
  with c b x s1 s2 show ?thesis by auto
qed

lemma roundtrip_lf:
  "no_break_marker t \<Longrightarrow> replace_breaks (replace_newlines t) = crlf_to_lf t"
proof (induction t rule: replace_newlines.induct)
  case 1
  then show ?case by simp
next
  case (2 c)
  then show ?case by (auto simp: br_marker_def is_space_def)
next
  case (3 c d cs)
  show ?case
  proof (cases "c = 13 \<and> d = 10")
    case True
    with 3 show ?thesis by (simp add: replace_breaks_marker)
  next
    case ncr: False
    show ?thesis
    proof (cases "c = 10")
      case True
      with 3 ncr show ?thesis by (simp add: replace_breaks_marker)
    next
      case False
      with ncr have rn: "replace_newlines (c # d # cs) = c # replace_newlines (d # cs)" by auto
      have "match_br (c # replace_newlines (d # cs)) = None"
      proof (rule ccontr)
        assume "match_br (c # replace_newlines (d # cs)) \<noteq> None"
        then obtain r where "match_br (c # replace_newlines (d # cs)) = Some r" by auto
        then have "match_br (c # d # cs) \<noteq> None" by (rule match_br_replace_newlines)
        with 3(4) show False by simp
      qed
      then have "replace_breaks (replace_newlines (c # d # cs)) =
          c # replace_breaks (replace_newlines (d # cs))"
        using rn by simp
      moreover have "crlf_to_lf (c # d # cs) = c # crlf_to_lf (d # cs)"
        using ncr by auto
      moreover have "replace_breaks (replace_newlines (d # cs)) = crlf_to_lf (d # cs)"
        using 3 ncr False by simp
      ultimately show ?thesis by simp
    qed
  qed
qed


lemma crlf_to_lf_id: "no_crlf t \<Longrightarrow> crlf_to_lf t = t"
  by (induction t rule: crlf_to_lf.induct) auto

text \<open>
  Claim C4, as stated, fails: the text "x", carriage return, line feed, "y" comes back
  with a bare line feed, and the text "x", line feed, "<br>" comes back with a second
  line feed where its own "<br>" was.
\<close>

theorem C4_roundtrip_counterexample:
  "editablePlace_text (toHtmlBreaks (Some [120, 13, 10, 121])) \<noteq> [120, 13, 10, 121]
   \<and> editablePlace_text (toHtmlBreaks (Some [120, 10, 60, 98, 114, 62]))
       \<noteq> [120, 10, 60, 98, 114, 62]"
  by (simp add: editablePlace_text_def toHtmlBreaks_def br_marker_def is_space_def)

text \<open>
  Claim C4, amended. For every text with no carriage return directly before a line feed
  and no match of the line-break pattern \<^verbatim>\<open><br\s*\/?>\<close> (in either case), storing it
  with \<open>toHtmlBreaks\<close> and loading it with the transform of the edit form gives the text
  back exactly; and a completed \<^verbatim>\<open>create\<close> with that text as specials or as notes inserts
  a row whose specials or notes the edit form loads as that text.
\<close>

theorem C4_roundtrip:
  assumes "no_break_marker t" and "no_crlf t"
  shows "editablePlace_text (toHtmlBreaks (Some t)) = t \<and>
         (PlaceModel_create fails new_id now data d = (Inr r, d') \<longrightarrow>
            (\<exists>row. places_table d' = places_table d @ [row] \<and> place_id row = new_id \<and>
               (in_specials data = Some t \<longrightarrow> editablePlace_text (specials row) = t) \<and>
               (in_notes data = Some t \<longrightarrow> editablePlace_text (place_notes row) = t)))"
proof (intro conjI impI)
  show rt: "editablePlace_text (toHtmlBreaks (Some t)) = t"
    using assms by (simp add: editablePlace_text_def toHtmlBreaks_def roundtrip_lf crlf_to_lf_id)
  assume "PlaceModel_create fails new_id now data d = (Inr r, d')"
  from PlaceModel_create_row [OF this] obtain row where
    "places_table d' = places_table d @ [row]" "place_id row = new_id"
    "specials row = toHtmlBreaks (in_specials data)"
    "place_notes row = toHtmlBreaks (in_notes data)"
    by auto
  with rt show "\<exists>row. places_table d' = places_table d @ [row] \<and> place_id row = new_id \<and>
               (in_specials data = Some t \<longrightarrow> editablePlace_text (specials row) = t) \<and>
               (in_notes data = Some t \<longrightarrow> editablePlace_text (place_notes row) = t)"
    by auto
qed

theorem C4_roundtrip_witness:
  "no_break_marker [97, 10, 98] \<and> no_crlf [97, 10, 98] \<and>
   editablePlace_text (toHtmlBreaks (Some [97, 10, 98])) = [97, 10, 98] \<and>
   (\<exists>row. places_table (snd (PlaceModel_create no_faults (js ''p2'') 7 cafe village)) =
            places_table village @ [row] \<and>
          specials row = Some (js ''a<br/>b'') \<and>
          editablePlace_text (specials row) = [97, 10, 98])"
proof -
  have h1: "no_break_marker [97, 10, 98]" by simp
  have h2: "no_crlf [97, 10, 98]" by simp
  obtain r d' where run: "PlaceModel_create no_faults (js ''p2'') 7 cafe village = (r, d')"
    by (cases "PlaceModel_create no_faults (js ''p2'') 7 cafe village")
  have r: "r = Inr None"
    using run by (simp add: example_defs place_model_defs)
  have sp: "in_specials cafe = Some [97, 10, 98]" by (simp add: cafe_def)
  from PlaceModel_create_row run r
  have stored: "\<forall>row. places_table d' = places_table village @ [row] \<longrightarrow>
      specials row = Some (js ''a<br/>b'')"
    by (fastforce simp: sp toHtmlBreaks_def br_marker_def js_def)
  from C4_roundtrip [OF h1 h2, where fails = no_faults and new_id = "js ''p2''" and now = 7
      and data = cafe and d = village and r = None and d' = d'] run r sp
  obtain row where "places_table d' = places_table village @ [row]"
    "editablePlace_text (specials row) = [97, 10, 98]"
    and rt: "editablePlace_text (toHtmlBreaks (Some [97, 10, 98])) = [97, 10, 98]"
    by auto
  with stored run have "\<exists>row. places_table (snd (PlaceModel_create no_faults (js ''p2'') 7 cafe
            village)) = places_table village @ [row] \<and>
          specials row = Some (js ''a<br/>b'') \<and>
          editablePlace_text (specials row) = [97, 10, 98]"
    by auto
  with h1 h2 rt show ?thesis by blast
qed

section \<open>Reading: the structured tag list and the filtered place list\<close>

lemma group_children_lookup:
  "(case group_children cs m k of None \<Rightarrow> [] | Some xs \<Rightarrow> xs) =
     (case m k of None \<Rightarrow> [] | Some xs \<Rightarrow> xs) @ filter (\<lambda>c. parent_tag_id c = k) cs"
  by (induction cs arbitrary: m) (auto simp: Let_def split: option.splits)

lemma with_children_simps:
  "tag.truncate (tag.extend t (tag_with_children.fields cs)) = t"
  "children (tag.extend t (tag_with_children.fields cs)) = cs"
  "tag_id (tag.extend t (tag_with_children.fields cs)) = tag_id t"
  by (simp_all add: tag.truncate_def tag.extend_def tag_with_children.fields_def)

lemma truncate_tag_id: "tag_id (tag.truncate p) = tag_id p"
  by (simp add: tag.truncate_def)

text \<open>
  Claim C9. \<^verbatim>\<open>findAllStructured\<close> returns whenever its query does, and its result is
  built from the flat list \<^verbatim>\<open>findAll\<close> gives: the parents are the tags with
  \<^verbatim>\<open>has_children\<close>, in the order of the list, each with a \<^verbatim>\<open>children\<close> array holding exactly
  the tags of the list whose \<^verbatim>\<open>parent_tag_id\<close> is its id; the standalone tags are those with
  no parent and \<^verbatim>\<open>has_children\<close> false, so that no tag is in both. The children are plain
  tags (by their type they carry no \<^verbatim>\<open>children\<close> of their own), so nothing is nested
  below one level; a tag with a parent and \<^verbatim>\<open>has_children\<close> false is in neither list and
  is found among the children of its parent.
\<close>

theorem C9_findAllStructured:
  "(\<not> fails 0 \<longrightarrow> (\<exists>s. TagModel_findAllStructured fails collate d = Inr s))
   \<and> (TagModel_findAllStructured fails collate d = Inr s \<longrightarrow>
        (\<exists>allTags. TagModel_findAll fails collate d = Inr allTags \<and>
           map tag.truncate (parents s) = filter has_children allTags \<and>
           (\<forall>p \<in> set (parents s).
              children p = filter (\<lambda>t. parent_tag_id t = Some (tag_id p)) allTags) \<and>
           standalone s = filter (\<lambda>t. \<not> has_children t \<and> parent_tag_id t = None) allTags))"
proof (intro conjI impI)
  assume "\<not> fails 0"
  then show "\<exists>s. TagModel_findAllStructured fails collate d = Inr s"
    by (simp add: TagModel_findAllStructured_def TagModel_findAll_def query_def
          select_all_tags_def Let_def)
next
  assume a: "TagModel_findAllStructured fails collate d = Inr s"
  then obtain allTags where all: "TagModel_findAll fails collate d = Inr allTags"
    by (auto simp: TagModel_findAllStructured_def split: sum.splits)
  let ?kids = "\<lambda>parent. case group_children (filter (\<lambda>t. parent_tag_id t \<noteq> None) allTags)
                   Map.empty (Some (tag_id parent)) of None \<Rightarrow> [] | Some cs \<Rightarrow> cs"
  from a all have s: "s = \<lparr>parents = map (\<lambda>parent. tag.extend parent
                               (tag_with_children.fields (?kids parent)))
                          (filter has_children allTags),
                    standalone = filter (\<lambda>t. \<not> has_children t \<and> parent_tag_id t = None) allTags\<rparr>"
    by (simp add: TagModel_findAllStructured_def Let_def)
  have kids: "\<And>parent. ?kids parent = filter (\<lambda>t. parent_tag_id t = Some (tag_id parent)) allTags"
    by (simp add: group_children_lookup) (rule filter_cong, auto)
  have p1: "map tag.truncate (parents s) = filter has_children allTags"
    by (simp add: s with_children_simps o_def)
  have p2: "\<forall>p \<in> set (parents s).
              children p = filter (\<lambda>t. parent_tag_id t = Some (tag_id p)) allTags"
    unfolding s using kids by (auto simp: with_children_simps)
  have p3: "standalone s = filter (\<lambda>t. \<not> has_children t \<and> parent_tag_id t = None) allTags"
    by (simp add: s)
  from all p1 p2 p3
  show "\<exists>allTags. TagModel_findAll fails collate d = Inr allTags \<and>
           map tag.truncate (parents s) = filter has_children allTags \<and>
           (\<forall>p \<in> set (parents s).
              children p = filter (\<lambda>t. parent_tag_id t = Some (tag_id p)) allTags) \<and>
           standalone s = filter (\<lambda>t. \<not> has_children t \<and> parent_tag_id t = None) allTags"
    by blast
qed

theorem C9_findAllStructured_witness:
  "\<exists>s. TagModel_findAllStructured no_faults (\<lambda>v. v) village = Inr s \<and>
        map tag.truncate (parents s) = [food] \<and>
        (\<forall>p \<in> set (parents s). children p = [pizza]) \<and> standalone s = []"
proof -
  have nf: "\<not> no_faults 0" by (simp add: no_faults_def)
  from C9_findAllStructured [of no_faults "\<lambda>v. v" village] nf
  obtain s where s: "TagModel_findAllStructured no_faults (\<lambda>v. v) village = Inr s" by blast
  have flat: "TagModel_findAll no_faults (\<lambda>v. v) village = Inr [food, pizza]"
    by (simp add: TagModel_findAll_def query_def select_all_tags_def example_defs)
  from C9_findAllStructured [of no_faults "\<lambda>v. v" village s] s flat
  have p1: "map tag.truncate (parents s) = filter has_children [food, pizza]"
    and p2: "\<forall>p \<in> set (parents s).
               children p = filter (\<lambda>t. parent_tag_id t = Some (tag_id p)) [food, pizza]"
    and p3: "standalone s = filter (\<lambda>t. \<not> has_children t \<and> parent_tag_id t = None) [food, pizza]"
    by auto
  from p1 have q1: "map tag.truncate (parents s) = [food]" by (simp add: food_def pizza_def)
  have q2: "\<forall>p \<in> set (parents s). children p = [pizza]"
  proof
    fix p assume p: "p \<in> set (parents s)"
    then have "tag.truncate p \<in> set (map tag.truncate (parents s))" by simp
    with q1 have "tag.truncate p = food" by simp
    then have "tag_id p = tag_id food" using truncate_tag_id [of p] by simp
    with p2 p show "children p = [pizza]" by (simp add: example_defs)
  qed
  from p3 have q3: "standalone s = []" by (simp add: food_def pizza_def)
  from s q1 q2 q3 show ?thesis by (intro exI [of _ s] conjI)
qed

lemma with_tags_simps:
  "place_id (with_tags d r) = place_id r"
  "place_name (with_tags d r) = place_name r"
  "tags (with_tags d r) = place_tag_values d (place_id r)"
  "place_row.truncate (with_tags d r) = r"
  by (simp_all add: with_tags_def place_row.extend_def place.fields_def place_row.truncate_def)

lemma set_joined_tags:
  "set (joined_tags d i) = {t \<in> set (tags_table d). (i, tag_id t) \<in> set (place_tags_table d)}"
  by (auto simp: joined_tags_def split: if_splits)

lemma set_tagged_place_ids:
  "set (tagged_place_ids d v) =
     {p. \<exists>t \<in> set (tags_table d). tag_value t = v \<and> (p, tag_id t) \<in> set (place_tags_table d)}"
  by (auto simp: tagged_place_ids_def)

text \<open>
  Claim C10. \<^verbatim>\<open>findAll\<close> with a tag value returns whenever its query does; every place it
  returns has a junction row to a tag with that value; the \<^verbatim>\<open>tags\<close> of every place it
  returns are the values of all the tags the place has junction rows to, in the order of
  \<^verbatim>\<open>sort_order\<close>; and the places come in the order of their names.
\<close>

theorem C10_findAll_filtered:
  "(\<not> fails 0 \<longrightarrow> (\<exists>rows. PlaceModel_findAll fails collate (Some v) d = Inr rows))
   \<and> (PlaceModel_findAll fails collate (Some v) d = Inr rows \<and> v \<noteq> [] \<longrightarrow>
        (\<forall>r \<in> set rows.
           (\<exists>t \<in> set (tags_table d).
              tag_value t = v \<and> (place_id r, tag_id t) \<in> set (place_tags_table d)) \<and>
           (\<exists>ts. tags r = map tag_value ts \<and> sorted (map tag_sort_order ts) \<and>
              set ts = {t \<in> set (tags_table d).
                          (place_id r, tag_id t) \<in> set (place_tags_table d)})) \<and>
        sorted (map (\<lambda>r. collate (place_name r)) rows))"
proof (intro conjI impI)
  assume "\<not> fails 0"
  then show "\<exists>rows. PlaceModel_findAll fails collate (Some v) d = Inr rows"
    by (simp add: PlaceModel_findAll_def query_def select_places_def)
next
  assume a: "PlaceModel_findAll fails collate (Some v) d = Inr rows \<and> v \<noteq> []"
  then have rows: "rows = sort_key (\<lambda>p. collate (place_name p))
      (map (with_tags d)
         (filter (\<lambda>r. place_id r \<in> set (tagged_place_ids d v)) (places_table d)))"
    by (auto simp: PlaceModel_findAll_def query_def select_places_def split: if_splits)
  show "\<forall>r \<in> set rows.
           (\<exists>t \<in> set (tags_table d).
              tag_value t = v \<and> (place_id r, tag_id t) \<in> set (place_tags_table d)) \<and>
           (\<exists>ts. tags r = map tag_value ts \<and> sorted (map tag_sort_order ts) \<and>
              set ts = {t \<in> set (tags_table d).
                          (place_id r, tag_id t) \<in> set (place_tags_table d)})"
  proof
    fix r assume "r \<in> set rows"
    then obtain p where p: "p \<in> set (places_table d)"
      "place_id p \<in> set (tagged_place_ids d v)" "r = with_tags d p"
      unfolding rows by auto
    from p(2) have assoc: "\<exists>t \<in> set (tags_table d).
        tag_value t = v \<and> (place_id p, tag_id t) \<in> set (place_tags_table d)"
      by (simp add: set_tagged_place_ids)
    let ?ts = "sort_key tag_sort_order (joined_tags d (place_id p))"
    have "tags r = map tag_value ?ts" by (simp add: p(3) with_tags_simps place_tag_values_def)
    moreover have "sorted (map tag_sort_order ?ts)" by (rule sorted_sort_key)
    moreover have "set ?ts = {t \<in> set (tags_table d).
        (place_id p, tag_id t) \<in> set (place_tags_table d)}"
      by (simp add: set_joined_tags)
    ultimately show "(\<exists>t \<in> set (tags_table d).
              tag_value t = v \<and> (place_id r, tag_id t) \<in> set (place_tags_table d)) \<and>
           (\<exists>ts. tags r = map tag_value ts \<and> sorted (map tag_sort_order ts) \<and>
              set ts = {t \<in> set (tags_table d).
                          (place_id r, tag_id t) \<in> set (place_tags_table d)})"
      using assoc by (auto simp: p(3) with_tags_simps)
  qed
next
  assume a: "PlaceModel_findAll fails collate (Some v) d = Inr rows \<and> v \<noteq> []"
  then have rows: "rows = sort_key (\<lambda>p. collate (place_name p))
      (map (with_tags d)
         (filter (\<lambda>r. place_id r \<in> set (tagged_place_ids d v)) (places_table d)))"
    by (auto simp: PlaceModel_findAll_def query_def select_places_def split: if_splits)
  show "sorted (map (\<lambda>r. collate (place_name r)) rows)"
    unfolding rows by (rule sorted_sort_key)
qed

theorem C10_findAll_filtered_witness:
  "PlaceModel_findAll no_faults (\<lambda>v. v) (Some (js ''pizza'')) village
     = Inr [with_tags village joes_bar] \<and>
   tags (with_tags village joes_bar) = [js ''food'', js ''pizza''] \<and>
   (\<exists>t \<in> set (tags_table village).
      tag_value t = js ''pizza'' \<and>
      (place_id (with_tags village joes_bar), tag_id t) \<in> set (place_tags_table village))"
proof -
  have run: "PlaceModel_findAll no_faults (\<lambda>v. v) (Some (js ''pizza'')) village
      = Inr [with_tags village joes_bar]"
    by (simp add: PlaceModel_findAll_def query_def select_places_def tagged_place_ids_def
          example_defs)
  have ne: "js ''pizza'' \<noteq> []" by (simp add: js_def)
  have tg: "tags (with_tags village joes_bar) = [js ''food'', js ''pizza'']"
    by (simp add: with_tags_simps place_tag_values_def joined_tags_def example_defs)
  from C10_findAll_filtered [of no_faults "\<lambda>v. v" "js ''pizza''" village
      "[with_tags village joes_bar]"] run ne
  have "\<forall>r \<in> set [with_tags village joes_bar].
      \<exists>t \<in> set (tags_table village).
        tag_value t = js ''pizza'' \<and> (place_id r, tag_id t) \<in> set (place_tags_table village)"
    by blast
  then have "\<exists>t \<in> set (tags_table village).
      tag_value t = js ''pizza'' \<and>
      (place_id (with_tags village joes_bar), tag_id t) \<in> set (place_tags_table village)"
    by simp
  with run tg show ?thesis by blast
qed


section \<open>Updating a place\<close>

lemma findById_existing:
  "p \<in> set ps \<Longrightarrow> distinct (map place_id ps) \<Longrightarrow>
   filter (\<lambda>r. place_id r = place_id p) ps = [p]"
  by (induction ps) (auto simp: filter_empty_conv image_iff)

text \<open>
  Claim C7. With the patch \<^verbatim>\<open>{}\<close>, \<^verbatim>\<open>update\<close> leaves the store as it is and returns what
  \<^verbatim>\<open>findById\<close> returns, which for an existing place is its current record. With a patch
  that holds only a name, \<^verbatim>\<open>update\<close> completes when its two queries do, and whenever it
  completes the store differs from the one before only in the name and \<^verbatim>\<open>updated_at\<close> of
  the place with that id: every other column, every other place, the tags and the
  junction rows are as before.
\<close>

theorem C7_update_frame:
  "(\<not> fails 3 \<longrightarrow>
      PlaceModel_update fails now i empty_patch d = (PlaceModel_findById False i d, d))
   \<and> (p \<in> set (places_table d) \<and> distinct (map place_id (places_table d)) \<longrightarrow>
        PlaceModel_findById False (place_id p) d = Inr (Some (with_tags d p)))
   \<and> (\<not> fails 0 \<and> \<not> fails 3 \<longrightarrow>
        (\<exists>r d'. PlaceModel_update fails now i (empty_patch\<lparr>in_name := Some n\<rparr>) d = (Inr r, d')))
   \<and> (PlaceModel_update fails now i (empty_patch\<lparr>in_name := Some n\<rparr>) d = (Inr r, d') \<longrightarrow>
        d' = d\<lparr>places_table :=
                 map (\<lambda>x. if place_id x = i then x\<lparr>place_name := n, place_updated_at := now\<rparr>
                          else x) (places_table d)\<rparr>)"
proof (intro conjI impI)
  assume "\<not> fails 3"
  then show "PlaceModel_update fails now i empty_patch d = (PlaceModel_findById False i d, d)"
    by (simp add: PlaceModel_update_def withTransaction_def place_updates_def empty_patch_def
          PlaceModel_findById_def query_def select_place_by_id_def)
next
  assume "p \<in> set (places_table d) \<and> distinct (map place_id (places_table d))"
  then have "filter (\<lambda>r. place_id r = place_id p) (places_table d) = [p]"
    by (simp add: findById_existing)
  then show "PlaceModel_findById False (place_id p) d = Inr (Some (with_tags d p))"
    by (simp add: PlaceModel_findById_def query_def select_place_by_id_def)
next
  assume "\<not> fails 0 \<and> \<not> fails 3"
  then show "\<exists>r d'. PlaceModel_update fails now i (empty_patch\<lparr>in_name := Some n\<rparr>) d = (Inr r, d')"
    by (simp add: PlaceModel_update_def withTransaction_def place_updates_def empty_patch_def
          PlaceModel_findById_def query_def select_place_by_id_def update_places_def Let_def)
next
  assume "PlaceModel_update fails now i (empty_patch\<lparr>in_name := Some n\<rparr>) d = (Inr r, d')"
  then show "d' = d\<lparr>places_table :=
                 map (\<lambda>x. if place_id x = i then x\<lparr>place_name := n, place_updated_at := now\<rparr>
                          else x) (places_table d)\<rparr>"
    by (auto simp: PlaceModel_update_def withTransaction_def place_updates_def empty_patch_def
          PlaceModel_findById_def query_def select_place_by_id_def update_places_def Let_def
          split: if_splits sum.splits)
qed

theorem C7_update_frame_witness:
  "PlaceModel_update no_faults 9 (js ''p1'') empty_patch village
     = (Inr (Some (with_tags village joes_bar)), village) \<and>
   (\<exists>r. PlaceModel_update no_faults 9 (js ''p1'')
          (empty_patch\<lparr>in_name := Some (js ''New Name'')\<rparr>) village
        = (Inr r, village\<lparr>places_table :=
                     [joes_bar\<lparr>place_name := js ''New Name'', place_updated_at := 9\<rparr>]\<rparr>))"
proof -
  have nf: "\<not> no_faults 0" "\<not> no_faults 3" by (simp_all add: no_faults_def)
  have ex: "joes_bar \<in> set (places_table village) \<and> distinct (map place_id (places_table village))"
    by (simp add: village_def)
  have i: "place_id joes_bar = js ''p1''" by (simp add: joes_bar_def)
  note C7 = C7_update_frame [where fails = no_faults and now = 9 and i = "js ''p1''"
      and d = village and p = joes_bar and n = "js ''New Name''"]
  from C7 nf ex i have one: "PlaceModel_update no_faults 9 (js ''p1'') empty_patch village
     = (Inr (Some (with_tags village joes_bar)), village)"
    by simp
  from C7 nf obtain r d' where run: "PlaceModel_update no_faults 9 (js ''p1'')
          (empty_patch\<lparr>in_name := Some (js ''New Name'')\<rparr>) village = (Inr r, d')"
    by blast
  with C7 have "d' = village\<lparr>places_table :=
      map (\<lambda>x. if place_id x = js ''p1''
               then x\<lparr>place_name := js ''New Name'', place_updated_at := 9\<rparr> else x)
        (places_table village)\<rparr>"
    by blast
  then have "d' = village\<lparr>places_table :=
      [joes_bar\<lparr>place_name := js ''New Name'', place_updated_at := 9\<rparr>]\<rparr>"
    using i by (simp add: village_def)
  with one run show ?thesis by blast
qed


section \<open>The tag hierarchy: keeping \<^verbatim>\<open>has_children\<close>\<close>

subsection \<open>The cascade\<close>

lemma cascade_superset: "set ds \<subseteq> set (cascade ts ds)"
proof (induction ts ds rule: cascade.induct)
  case (1 ts ds)
  show ?case
  proof (cases "referencing ts ds = []")
    case True
    then show ?thesis by (simp add: cascade.simps)
  next
    case False
    with 1 have "set (ds @ referencing ts ds) \<subseteq> set (cascade ts (ds @ referencing ts ds))"
      by simp
    with False show ?thesis by (subst cascade.simps) auto
  qed
qed

lemma cascade_closed:
  "t \<in> set ts \<Longrightarrow> parent_tag_id t = Some p \<Longrightarrow> p \<in> set (cascade ts ds) \<Longrightarrow>
   tag_id t \<in> set (cascade ts ds)"
proof (induction ts ds rule: cascade.induct)
  case (1 ts ds)
  show ?case
  proof (cases "referencing ts ds = []")
    case True
    with 1(4) have p: "p \<in> set ds" by (simp add: cascade.simps)
    have "tag_id t \<in> set ds"
    proof (rule ccontr)
      assume "tag_id t \<notin> set ds"
      with p 1(2,3) have "tag_id t \<in> set (referencing ts ds)"
        by (auto simp: referencing_def)
      with True show False by simp
    qed
    with True show ?thesis by (simp add: cascade.simps)
  next
    case False
    then have eq: "cascade ts ds = cascade ts (ds @ referencing ts ds)"
      by (subst cascade.simps) simp
    with 1 False show ?thesis by simp
  qed
qed

lemma cascade_origin:
  "i \<in> set (cascade ts ds) \<Longrightarrow>
   i \<in> set ds \<or> (\<exists>t \<in> set ts. tag_id t = i \<and>
                    (\<exists>q. parent_tag_id t = Some q \<and> q \<in> set (cascade ts ds)))"
proof (induction ts ds rule: cascade.induct)
  case (1 ts ds)
  show ?case
  proof (cases "referencing ts ds = []")
    case True
    with 1(2) show ?thesis by (simp add: cascade.simps)
  next
    case False
    then have eq: "cascade ts ds = cascade ts (ds @ referencing ts ds)"
      by (subst cascade.simps) simp
    with 1 False have "i \<in> set (ds @ referencing ts ds) \<or>
      (\<exists>t \<in> set ts. tag_id t = i \<and> (\<exists>q. parent_tag_id t = Some q \<and> q \<in> set (cascade ts ds)))"
      by simp
    moreover have "i \<in> set (referencing ts ds) \<Longrightarrow>
      (\<exists>t \<in> set ts. tag_id t = i \<and> (\<exists>q. parent_tag_id t = Some q \<and> q \<in> set (cascade ts ds)))"
      using cascade_superset [of ds ts] by (auto simp: referencing_def split: option.splits)
    ultimately show ?thesis by auto
  qed
qed

lemma cascade_fixed: "referencing ts ds = [] \<Longrightarrow> cascade ts ds = ds"
  by (simp add: cascade.simps)

lemma cascade_step: "referencing ts ds \<noteq> [] \<Longrightarrow> cascade ts ds = cascade ts (ds @ referencing ts ds)"
  by (subst cascade.simps) simp

text \<open>The cascade in the example stores.\<close>

lemma cascade_loop_db: "cascade [own_parent, pizza] [js ''t2''] = [js ''t2'']"
  by (rule cascade_fixed) (simp add: referencing_def example_defs own_parent_def)

lemma cascade_village_pizza: "cascade [food, pizza] [js ''t2''] = [js ''t2'']"
  by (rule cascade_fixed) (simp add: referencing_def example_defs)

lemma cascade_village_food: "cascade [food, pizza] [js ''t1''] = [js ''t1'', js ''t2'']"
proof -
  have r1: "referencing [food, pizza] [js ''t1''] = [js ''t2'']"
    by (simp add: referencing_def example_defs)
  have r2: "referencing [food, pizza] [js ''t1'', js ''t2''] = []"
    by (simp add: referencing_def example_defs)
  have "cascade [food, pizza] [js ''t1''] = cascade [food, pizza] ([js ''t1''] @ [js ''t2''])"
    using cascade_step [of "[food, pizza]" "[js ''t1'']"] r1 by simp
  also have "\<dots> = [js ''t1'', js ''t2'']"
    using cascade_fixed [OF r2] by simp
  finally show ?thesis .
qed

subsection \<open>Recomputing the flag\<close>

lemma map_fst_links: "map fst (links d) = map tag_id (tags_table d)"
  by (simp add: links_def o_def)

lemma child_ids_links:
  "tag_id ` set (child_rows d q) = fst ` {x \<in> set (links d). snd x = Some q}"
  by (force simp: child_rows_def links_def)

lemma child_rows_links:
  "(child_rows d q \<noteq> []) = (\<exists>x \<in> set (links d). snd x = Some q)"
  by (auto simp: child_rows_def links_def filter_empty_conv)

lemma set_has_children_result:
  "set_has_children q d = Inr (u, d') \<Longrightarrow>
   links d' = links d \<and> place_tags_table d' = place_tags_table d \<and>
   places_table d' = places_table d \<and>
   (\<forall>T \<in> set (tags_table d'). tag_id T = q \<longrightarrow> has_children T = (child_rows d' q \<noteq> [])) \<and>
   (\<forall>T \<in> set (tags_table d'). tag_id T \<noteq> q \<longrightarrow> T \<in> set (tags_table d))"
proof -
  assume a: "set_has_children q d = Inr (u, d')"
  define E where "E = (\<exists>c \<in> set (tags_table d). parent_tag_id c = Some q)"
  define f where "f = (\<lambda>t :: tag. if tag_id t = q then t\<lparr>has_children := E\<rparr> else t)"
  from a have d': "d' = d\<lparr>tags_table := map f (tags_table d)\<rparr>"
    unfolding E_def f_def by (auto simp: set_has_children_def)
  have fl: "\<And>t. (tag_id (f t), parent_tag_id (f t)) = (tag_id t, parent_tag_id t)"
    by (simp add: f_def)
  have l: "links d' = links d" by (simp add: d' links_def o_def fl)
  have "E = (child_rows d q \<noteq> [])" by (auto simp: E_def child_rows_def filter_empty_conv)
  also have "\<dots> = (child_rows d' q \<noteq> [])" by (simp add: child_rows_links l)
  finally have E: "E = (child_rows d' q \<noteq> [])" .
  have flag: "\<forall>T \<in> set (tags_table d'). tag_id T = q \<longrightarrow>
      has_children T = (child_rows d' q \<noteq> [])"
  proof (intro ballI impI)
    fix T assume "T \<in> set (tags_table d')" and q: "tag_id T = q"
    then obtain x where x: "x \<in> set (tags_table d)" "T = f x" by (auto simp: d')
    with q fl [of x] have "tag_id x = q" by simp
    with x have "has_children T = E" by (simp add: f_def)
    with E show "has_children T = (child_rows d' q \<noteq> [])" by simp
  qed
  have rest: "\<forall>T \<in> set (tags_table d'). tag_id T \<noteq> q \<longrightarrow> T \<in> set (tags_table d)"
  proof (intro ballI impI)
    fix T assume "T \<in> set (tags_table d')" and q: "tag_id T \<noteq> q"
    then obtain x where x: "x \<in> set (tags_table d)" "T = f x" by (auto simp: d')
    with q fl [of x] have "tag_id x \<noteq> q" by simp
    with x show "T \<in> set (tags_table d)" by (simp add: f_def)
  qed
  from l flag rest show ?thesis by (simp add: d')
qed

lemma updateHasChildren_if_result:
  assumes "updateHasChildren_if failed par d = Inr (u, d')"
  shows "links d' = links d \<and> place_tags_table d' = place_tags_table d \<and>
   places_table d' = places_table d \<and>
   (\<forall>q T. par = Some q \<and> q \<noteq> [] \<and> T \<in> set (tags_table d') \<and> tag_id T = q \<longrightarrow>
      has_children T = (child_rows d' q \<noteq> [])) \<and>
   (\<forall>T \<in> set (tags_table d'). par \<noteq> Some (tag_id T) \<longrightarrow> T \<in> set (tags_table d))"
proof (cases "\<exists>q. par = Some q \<and> q \<noteq> []")
  case True
  then obtain q where q: "par = Some q" "q \<noteq> []" by blast
  with assms have "set_has_children q d = Inr (u, d')"
    by (auto simp: updateHasChildren_if_def updateHasChildren_def query_def split: if_splits)
  from set_has_children_result [OF this] q show ?thesis by auto
next
  case False
  with assms have "d' = d"
    by (auto simp: updateHasChildren_if_def split: option.splits if_splits)
  with False show ?thesis by auto
qed


subsection \<open>The three operations, step by step\<close>

lemma or_null_Some: "or_null v = Some q \<Longrightarrow> q \<noteq> []"
  by (auto simp: or_null_def truthy_def split: if_splits option.splits)

lemma parent_or_null_Some: "parent_or_null v = Some q \<Longrightarrow> q \<noteq> []"
  by (auto simp: parent_or_null_def split: option.splits dest: or_null_Some)

lemma or_null_supplied: "or_null p = supplied_parent (Some p)"
  by (simp add: or_null_def truthy_def supplied_parent_def split: option.splits)


lemma TagModel_create_steps:
  "TagModel_create fails new_id now data d = (Inr row, d') \<Longrightarrow>
   \<exists>d1 u. insert_tag new_id now (in_value data) (in_display data) (in_sort_order data)
              (parent_or_null (in_parent_tag_id data)) d = Inr (row, d1) \<and>
           updateHasChildren_if (fails 1) (parent_or_null (in_parent_tag_id data)) d1 = Inr (u, d')"
  by (auto simp: TagModel_create_def query_def split: sum.splits prod.splits if_splits)

lemma insert_tag_result:
  "insert_tag new_id now v dis so par d = Inr (row, d1) \<Longrightarrow>
   tags_table d1 = tags_table d @ [row] \<and> links d1 = links d @ [(new_id, par)] \<and>
   place_tags_table d1 = place_tags_table d \<and> places_table d1 = places_table d \<and>
   tag_id row = new_id \<and> parent_tag_id row = par"
  by (auto simp: insert_tag_def links_def Let_def split: option.splits if_splits)

lemma create_flag:
  assumes run: "TagModel_create fails new_id now data d = (Inr row, d')"
    and T: "T \<in> set (tags_table d')"
    and ch: "tag_id ` set (child_rows d' (tag_id T)) \<noteq> tag_id ` set (child_rows d (tag_id T))"
  shows "has_children T = (child_rows d' (tag_id T) \<noteq> [])"
proof -
  let ?par = "parent_or_null (in_parent_tag_id data)"
  from TagModel_create_steps [OF run] obtain d1 u where
    ins: "insert_tag new_id now (in_value data) (in_display data) (in_sort_order data) ?par d
            = Inr (row, d1)"
    and up: "updateHasChildren_if (fails 1) ?par d1 = Inr (u, d')" by blast
  from insert_tag_result [OF ins] have l1: "links d1 = links d @ [(new_id, ?par)]" by simp
  from updateHasChildren_if_result [OF up] have l2: "links d' = links d1"
    and flag: "\<forall>q T. ?par = Some q \<and> q \<noteq> [] \<and> T \<in> set (tags_table d') \<and> tag_id T = q \<longrightarrow>
      has_children T = (child_rows d' q \<noteq> [])" by blast+
  have par: "?par = Some (tag_id T)"
  proof (rule ccontr)
    assume "?par \<noteq> Some (tag_id T)"
    then have "{x \<in> set (links d'). snd x = Some (tag_id T)} =
               {x \<in> set (links d). snd x = Some (tag_id T)}"
      by (auto simp: l1 l2)
    with ch show False by (simp add: child_ids_links)
  qed
  then have "tag_id T \<noteq> []" by (rule parent_or_null_Some)
  with par flag T show ?thesis by blast
qed


lemma fold_tag_updates:
  "fold assign_tag (tag_updates data @ [SetTagUpdatedAt now]) t = only_supplied now data t"
  by (simp add: tag_updates_def only_supplied_def or_null_def truthy_def split: option.splits)

lemma find_tag_Some: "find_tag d i = Some t \<Longrightarrow> t \<in> set (tags_table d) \<and> tag_id t = i"
proof -
  assume "find_tag d i = Some t"
  then obtain r where "filter (\<lambda>t. tag_id t = i) (tags_table d) = t # r"
    by (auto simp: find_tag_def split: list.splits)
  then have "t \<in> set (filter (\<lambda>t. tag_id t = i) (tags_table d))" by simp
  then show ?thesis by simp
qed

lemma find_tag_unique:
  "distinct (map tag_id ts) \<Longrightarrow> t \<in> set ts \<Longrightarrow> filter (\<lambda>x. tag_id x = tag_id t) ts = [t]"
  by (induction ts) (auto simp: filter_empty_conv image_iff)

lemma find_tag_distinct:
  "distinct (map tag_id (tags_table d)) \<Longrightarrow> find_tag d i = Some t \<Longrightarrow>
   x \<in> set (tags_table d) \<Longrightarrow> tag_id x = i \<Longrightarrow> x = t"
proof -
  assume dist: "distinct (map tag_id (tags_table d))" and f: "find_tag d i = Some t"
    and x: "x \<in> set (tags_table d)" "tag_id x = i"
  from find_tag_unique [OF dist x(1)] x(2) have "filter (\<lambda>y. tag_id y = i) (tags_table d) = [x]"
    by simp
  with f show "x = t" by (simp add: find_tag_def)
qed

lemma update_tags_result:
  "update_tags ups i d = Inr (rows, d1) \<Longrightarrow>
   tags_table d1 = map (\<lambda>t. if tag_id t = i then fold assign_tag ups t else t) (tags_table d) \<and>
   place_tags_table d1 = place_tags_table d \<and> places_table d1 = places_table d \<and>
   rows = map (fold assign_tag ups) (filter (\<lambda>t. tag_id t = i) (tags_table d))"
  by (auto simp: update_tags_def Let_def split: if_splits)

lemma TagModel_update_steps:
  assumes "TagModel_update fails now i data d = (Inr r, d')"
  shows "(find_tag d i = None \<and> r = None \<and> d' = d) \<or>
         (\<exists>oldTag. find_tag d i = Some oldTag \<and> tag_updates data = [] \<and>
            r = Some oldTag \<and> d' = d) \<or>
         (\<exists>oldTag rows d1. find_tag d i = Some oldTag \<and> tag_updates data \<noteq> [] \<and>
            update_tags (tag_updates data @ [SetTagUpdatedAt now]) i d = Inr (rows, d1) \<and>
            r = (case rows of [] \<Rightarrow> None | x # _ \<Rightarrow> Some x) \<and>
            ((in_parent_tag_id data = None \<or>
              parent_tag_id oldTag = parent_or_null (in_parent_tag_id data)) \<and> d' = d1 \<or>
             in_parent_tag_id data \<noteq> None \<and>
             parent_tag_id oldTag \<noteq> parent_or_null (in_parent_tag_id data) \<and>
             (\<exists>u d2 u'. updateHasChildren_if (fails 2) (parent_tag_id oldTag) d1 = Inr (u, d2) \<and>
                updateHasChildren_if (fails 3) (parent_or_null (in_parent_tag_id data)) d2
                  = Inr (u', d'))))"
  using assms
  by (auto simp: TagModel_update_def query_def select_tag_by_id_def Let_def parent_or_null_def
        split: sum.splits prod.splits if_splits option.splits)


lemma only_supplied_id: "tag_id (only_supplied now data t) = tag_id t"
  by (simp add: only_supplied_def)

lemma only_supplied_parent:
  "parent_tag_id (only_supplied now data t) =
     (case in_parent_tag_id data of None \<Rightarrow> parent_tag_id t | Some p \<Rightarrow> or_null p)"
  by (simp add: only_supplied_def or_null_def truthy_def split: option.splits)

lemma child_ids_cong:
  assumes "tags_table d1 = map g (tags_table d)"
    and "\<And>t. t \<in> set (tags_table d) \<Longrightarrow> tag_id (g t) = tag_id t"
    and "\<And>t. t \<in> set (tags_table d) \<Longrightarrow> (parent_tag_id (g t) = Some q) = (parent_tag_id t = Some q)"
  shows "tag_id ` set (child_rows d1 q) = tag_id ` set (child_rows d q)"
proof -
  have "tag_id ` set (child_rows d1 q) =
      {x. \<exists>t. t \<in> set (tags_table d) \<and> parent_tag_id (g t) = Some q \<and> x = tag_id (g t)}"
    by (auto simp: child_rows_def assms(1))
  also have "\<dots> = {x. \<exists>t. t \<in> set (tags_table d) \<and> parent_tag_id t = Some q \<and> x = tag_id t}"
    using assms(2,3) by (intro Collect_cong) metis
  also have "\<dots> = tag_id ` set (child_rows d q)"
    by (auto simp: child_rows_def)
  finally show ?thesis .
qed

lemma update_flag:
  assumes run: "TagModel_update fails now i data d = (Inr r, d')"
    and dist: "distinct (map tag_id (tags_table d))"
    and ne: "[] \<notin> tag_id ` set (tags_table d)"
    and T: "T \<in> set (tags_table d')"
    and ch: "tag_id ` set (child_rows d' (tag_id T)) \<noteq> tag_id ` set (child_rows d (tag_id T))"
  shows "has_children T = (child_rows d' (tag_id T) \<noteq> [])"
proof -
  let ?q = "tag_id T"
  let ?new = "parent_or_null (in_parent_tag_id data)"
  let ?g = "\<lambda>t. if tag_id t = i then only_supplied now data t else t"
  from ch have "d' \<noteq> d" by auto
  with TagModel_update_steps [OF run] obtain oldTag rows d1 where
    old: "find_tag d i = Some oldTag"
    and up: "update_tags (tag_updates data @ [SetTagUpdatedAt now]) i d = Inr (rows, d1)"
    and rest: "(in_parent_tag_id data = None \<or> parent_tag_id oldTag = ?new) \<and> d' = d1 \<or>
             in_parent_tag_id data \<noteq> None \<and> parent_tag_id oldTag \<noteq> ?new \<and>
             (\<exists>u d2 u'. updateHasChildren_if (fails 2) (parent_tag_id oldTag) d1 = Inr (u, d2) \<and>
                updateHasChildren_if (fails 3) ?new d2 = Inr (u', d'))"
    by blast
  from update_tags_result [OF up] have "tags_table d1 =
      map (\<lambda>t. if tag_id t = i then fold assign_tag (tag_updates data @ [SetTagUpdatedAt now]) t
               else t) (tags_table d)" by blast
  then have t1: "tags_table d1 = map ?g (tags_table d)"
    by (simp only: fold_tag_updates)
  have gid: "\<And>t. tag_id (?g t) = tag_id t" by (simp add: only_supplied_id)
  have "tag_id \<circ> ?g = tag_id" by (auto simp: fun_eq_iff only_supplied_id)
  then have "map tag_id (tags_table d1) = map tag_id (tags_table d)" by (simp add: t1)
  then have ids1: "tag_id ` set (tags_table d1) = tag_id ` set (tags_table d)"
    by (metis set_map)
  have same: "tag_id ` set (child_rows d1 ?q) = tag_id ` set (child_rows d ?q)"
    if "in_parent_tag_id data = None \<or> parent_tag_id oldTag = ?new \<or>
        (parent_tag_id oldTag \<noteq> Some ?q \<and> ?new \<noteq> Some ?q)"
  proof (rule child_ids_cong [OF t1])
    fix t assume "t \<in> set (tags_table d)"
    show "tag_id (?g t) = tag_id t" by (rule gid)
  next
    fix t assume t: "t \<in> set (tags_table d)"
    show "(parent_tag_id (?g t) = Some ?q) = (parent_tag_id t = Some ?q)"
    proof (cases "tag_id t = i")
      case False
      then show ?thesis by simp
    next
      case True
      with find_tag_distinct [OF dist old t] have "t = oldTag" by simp
      with True that show ?thesis
        by (auto simp: only_supplied_parent parent_or_null_def split: option.splits)
    qed
  qed
  from rest show ?thesis
  proof
    assume a: "(in_parent_tag_id data = None \<or> parent_tag_id oldTag = ?new) \<and> d' = d1"
    with same have "tag_id ` set (child_rows d' ?q) = tag_id ` set (child_rows d ?q)" by blast
    with ch show ?thesis by simp
  next
    assume b: "in_parent_tag_id data \<noteq> None \<and> parent_tag_id oldTag \<noteq> ?new \<and>
             (\<exists>u d2 u'. updateHasChildren_if (fails 2) (parent_tag_id oldTag) d1 = Inr (u, d2) \<and>
                updateHasChildren_if (fails 3) ?new d2 = Inr (u', d'))"
    then obtain u d2 u' where
      s2: "updateHasChildren_if (fails 2) (parent_tag_id oldTag) d1 = Inr (u, d2)"
      and s3: "updateHasChildren_if (fails 3) ?new d2 = Inr (u', d')" by blast
    from updateHasChildren_if_result [OF s2] have l2: "links d2 = links d1"
      and f2: "\<forall>q T. parent_tag_id oldTag = Some q \<and> q \<noteq> [] \<and> T \<in> set (tags_table d2) \<and>
                 tag_id T = q \<longrightarrow> has_children T = (child_rows d2 q \<noteq> [])"
      by blast+
    from updateHasChildren_if_result [OF s3] have l3: "links d' = links d2"
      and f3: "\<forall>q T. ?new = Some q \<and> q \<noteq> [] \<and> T \<in> set (tags_table d') \<and>
                 tag_id T = q \<longrightarrow> has_children T = (child_rows d' q \<noteq> [])"
      and k3: "\<forall>T \<in> set (tags_table d'). ?new \<noteq> Some (tag_id T) \<longrightarrow> T \<in> set (tags_table d2)"
      by blast+
    have cr: "tag_id ` set (child_rows d' ?q) = tag_id ` set (child_rows d1 ?q)"
      by (simp add: child_ids_links l2 l3)
    have "map tag_id (tags_table d') = map fst (links d')" by (rule map_fst_links [symmetric])
    also have "\<dots> = map fst (links d1)" by (simp add: l2 l3)
    also have "\<dots> = map tag_id (tags_table d1)" by (rule map_fst_links)
    finally have "tag_id ` set (tags_table d') = tag_id ` set (tags_table d1)" by (metis set_map)
    then have "tag_id ` set (tags_table d') = tag_id ` set (tags_table d)" by (simp add: ids1)
    with T ne have qne: "?q \<noteq> []" by (metis imageI)
    from ch cr same have which: "parent_tag_id oldTag = Some ?q \<or> ?new = Some ?q" by auto
    show ?thesis
    proof (cases "?new = Some ?q")
      case True
      with f3 qne T show ?thesis by blast
    next
      case False
      with which have o: "parent_tag_id oldTag = Some ?q" by simp
      from False k3 T have "T \<in> set (tags_table d2)" by blast
      with f2 o qne have "has_children T = (child_rows d2 ?q \<noteq> [])" by blast
      also have "\<dots> = (child_rows d' ?q \<noteq> [])" by (simp add: child_rows_links l3)
      finally show ?thesis .
    qed
  qed
qed


lemma TagModel_delete_steps:
  assumes "TagModel_delete fails i d = (Inr b, d')"
  shows "(find_tag d i = None \<and> \<not> b \<and> d' = d) \<or>
         (\<exists>tag d2 u. find_tag d i = Some tag \<and> b \<and>
            d2 = d\<lparr>tags_table := filter (\<lambda>t. tag_id t \<notin> set (doomed d i)) (tags_table d),
                    place_tags_table :=
                      filter (\<lambda>(p, t). t \<notin> set (doomed d i))
                        (filter (\<lambda>(p, t). t \<noteq> i) (place_tags_table d))\<rparr> \<and>
            updateHasChildren_if (fails 3) (parent_tag_id tag) d2 = Inr (u, d'))"
proof (cases "find_tag d i")
  case None
  with assms show ?thesis
    by (auto simp: TagModel_delete_def query_def select_tag_by_id_def split: if_splits)
next
  case (Some tag)
  then have "filter (\<lambda>t. tag_id t = i) (tags_table d) \<noteq> []"
    by (auto simp: find_tag_def)
  with Some assms show ?thesis
    by (auto simp: TagModel_delete_def query_def select_tag_by_id_def Let_def doomed_def
          delete_place_tags_of_tag_def delete_tags_def
          split: if_splits sum.splits prod.splits)
qed

lemma delete_flag:
  assumes run: "TagModel_delete fails i d = (Inr b, d')"
    and dist: "distinct (map tag_id (tags_table d))"
    and ne: "[] \<notin> tag_id ` set (tags_table d)"
    and T: "T \<in> set (tags_table d')"
    and ch: "tag_id ` set (child_rows d' (tag_id T)) \<noteq> tag_id ` set (child_rows d (tag_id T))"
  shows "has_children T = (child_rows d' (tag_id T) \<noteq> [])"
proof -
  let ?q = "tag_id T"
  let ?gone = "doomed d i"
  from ch have "d' \<noteq> d" by auto
  with TagModel_delete_steps [OF run] obtain tag d2 u where
    tag: "find_tag d i = Some tag"
    and d2: "d2 = d\<lparr>tags_table := filter (\<lambda>t. tag_id t \<notin> set ?gone) (tags_table d),
                    place_tags_table :=
                      filter (\<lambda>(p, t). t \<notin> set ?gone)
                        (filter (\<lambda>(p, t). t \<noteq> i) (place_tags_table d))\<rparr>"
    and up: "updateHasChildren_if (fails 3) (parent_tag_id tag) d2 = Inr (u, d')"
    by blast
  from updateHasChildren_if_result [OF up] have l: "links d' = links d2"
    and flag: "\<forall>q T. parent_tag_id tag = Some q \<and> q \<noteq> [] \<and> T \<in> set (tags_table d') \<and>
                 tag_id T = q \<longrightarrow> has_children T = (child_rows d' q \<noteq> [])"
    by blast+
  have t2: "tags_table d2 = filter (\<lambda>t. tag_id t \<notin> set ?gone) (tags_table d)"
    by (simp add: d2)
  have "map tag_id (tags_table d') = map fst (links d')" by (rule map_fst_links [symmetric])
  also have "\<dots> = map tag_id (tags_table d2)" by (simp add: l map_fst_links)
  finally have ids: "tag_id ` set (tags_table d') = tag_id ` set (tags_table d2)"
    by (metis set_map)
  with T have q2: "?q \<in> tag_id ` set (tags_table d2)" by blast
  then have qd: "?q \<in> tag_id ` set (tags_table d)" and qg: "?q \<notin> set ?gone"
    by (auto simp: t2)
  from qd ne have qne: "?q \<noteq> []" by metis
  have cr: "tag_id ` set (child_rows d' ?q) = tag_id ` set (child_rows d2 ?q)"
    by (simp add: child_ids_links l)
  have sub: "set (child_rows d2 ?q) \<subseteq> set (child_rows d ?q)"
    by (auto simp: child_rows_def t2)
  with ch cr obtain c where c: "c \<in> set (child_rows d ?q)" "c \<notin> set (child_rows d2 ?q)"
    by blast
  then have cin: "c \<in> set (tags_table d)" and cpar: "parent_tag_id c = Some ?q"
    and cg: "tag_id c \<in> set ?gone"
    by (auto simp: child_rows_def t2)
  from cascade_origin [OF cg [unfolded doomed_def]]
  have "tag_id c = i \<or> (\<exists>t \<in> set (tags_table d). tag_id t = tag_id c \<and>
      (\<exists>p. parent_tag_id t = Some p \<and> p \<in> set ?gone))"
    by (auto simp: doomed_def)
  moreover have "\<not> (\<exists>t \<in> set (tags_table d). tag_id t = tag_id c \<and>
      (\<exists>p. parent_tag_id t = Some p \<and> p \<in> set ?gone))"
  proof
    assume "\<exists>t \<in> set (tags_table d). tag_id t = tag_id c \<and>
      (\<exists>p. parent_tag_id t = Some p \<and> p \<in> set ?gone)"
    then obtain t p where t: "t \<in> set (tags_table d)" "tag_id t = tag_id c"
      "parent_tag_id t = Some p" "p \<in> set ?gone" by blast
    from dist t(1,2) cin have "t = c" by (meson distinct_map inj_onD)
    with t cpar qg show False by simp
  qed
  ultimately have "tag_id c = i" by blast
  with find_tag_distinct [OF dist tag cin] have "c = tag" by simp
  with cpar have "parent_tag_id tag = Some ?q" by simp
  with flag qne T show ?thesis by blast
qed



subsection \<open>The flag after create, update and delete\<close>

lemma updateHasChildren_if_ids:
  "updateHasChildren_if failed par d = Inr (u, d') \<Longrightarrow>
   map tag_id (tags_table d') = map tag_id (tags_table d)"
  using updateHasChildren_if_result [of failed par d u d'] map_fst_links by metis

lemma create_distinct:
  assumes "TagModel_create fails new_id now data d = (Inr row, d')"
    and "distinct (map tag_id (tags_table d))"
  shows "distinct (map tag_id (tags_table d'))"
proof -
  let ?par = "parent_or_null (in_parent_tag_id data)"
  from TagModel_create_steps [OF assms(1)] obtain d1 u where
    ins: "insert_tag new_id now (in_value data) (in_display data) (in_sort_order data) ?par d
            = Inr (row, d1)"
    and up: "updateHasChildren_if (fails 1) ?par d1 = Inr (u, d')" by blast
  from ins have "new_id \<notin> tag_id ` set (tags_table d)"
    by (auto simp: insert_tag_def Let_def split: option.splits if_splits)
  with insert_tag_result [OF ins] assms(2) have "distinct (map tag_id (tags_table d1))"
    by auto
  with updateHasChildren_if_ids [OF up] show ?thesis by simp
qed

lemma update_tags_ids:
  assumes "update_tags (tag_updates data @ [SetTagUpdatedAt now]) i d = Inr (rows, d1)"
  shows "map tag_id (tags_table d1) = map tag_id (tags_table d)"
proof -
  let ?g = "\<lambda>t. if tag_id t = i then only_supplied now data t else t"
  have g: "tag_id \<circ> ?g = tag_id" by (auto simp: fun_eq_iff only_supplied_id)
  from update_tags_result [OF assms] have "tags_table d1 =
      map (\<lambda>t. if tag_id t = i then fold assign_tag (tag_updates data @ [SetTagUpdatedAt now]) t
               else t) (tags_table d)" by blast
  then have "tags_table d1 = map ?g (tags_table d)" by (simp only: fold_tag_updates)
  then show ?thesis by (simp add: g)
qed

lemma update_distinct:
  assumes "TagModel_update fails now i data d = (Inr r, d')"
    and "distinct (map tag_id (tags_table d))"
  shows "distinct (map tag_id (tags_table d'))"
proof -
  from TagModel_update_steps [OF assms(1)]
  have "map tag_id (tags_table d') = map tag_id (tags_table d)"
    by (elim disjE exE conjE)
       (auto dest!: update_tags_ids updateHasChildren_if_ids)
  with assms(2) show ?thesis by simp
qed

lemma delete_distinct:
  assumes "TagModel_delete fails i d = (Inr b, d')"
    and "distinct (map tag_id (tags_table d))"
  shows "distinct (map tag_id (tags_table d'))"
proof -
  from TagModel_delete_steps [OF assms(1)] show ?thesis
  proof (elim disjE exE conjE)
    fix tag d2 u
    assume d2: "d2 = d\<lparr>tags_table := filter (\<lambda>t. tag_id t \<notin> set (doomed d i)) (tags_table d),
                    place_tags_table :=
                      filter (\<lambda>(p, t). t \<notin> set (doomed d i))
                        (filter (\<lambda>(p, t). t \<noteq> i) (place_tags_table d))\<rparr>"
      and up: "updateHasChildren_if (fails 3) (parent_tag_id tag) d2 = Inr (u, d')"
    from d2 assms(2) have "distinct (map tag_id (tags_table d2))"
      by (simp add: distinct_map_filter)
    with updateHasChildren_if_ids [OF up] show ?thesis by simp
  qed (use assms(2) in simp)
qed

lemma other_child_rows_eq:
  assumes "distinct (map tag_id (tags_table d))" and "T \<in> set (tags_table d)"
    and "parent_tag_id T \<noteq> Some (tag_id T)"
  shows "other_child_rows d (tag_id T) = child_rows d (tag_id T)"
proof -
  have "\<forall>c \<in> set (child_rows d (tag_id T)). tag_id c \<noteq> tag_id T"
  proof
    fix c assume c: "c \<in> set (child_rows d (tag_id T))"
    show "tag_id c \<noteq> tag_id T"
    proof
      assume "tag_id c = tag_id T"
      moreover from c have "c \<in> set (tags_table d)" by (simp add: child_rows_def)
      ultimately have "c = T" using assms(1,2) by (meson distinct_map inj_onD)
      with c assms(3) show False by (simp add: child_rows_def)
    qed
  qed
  then show ?thesis by (simp add: other_child_rows_def)
qed

text \<open>
  Claim C1, as stated, fails where a tag is its own parent, which \<^verbatim>\<open>update\<close> allows:
  in the store where "food" is its own parent and the parent of "pizza", deleting "pizza"
  changes the set of other tags below "food" from "pizza" to nothing, and the
  recomputation leaves \<^verbatim>\<open>has_children\<close> of "food" true, since
  \<^verbatim>\<open>EXISTS(SELECT 1 FROM tags WHERE parent_tag_id = $1)\<close> finds "food" itself.
\<close>

theorem C1_has_children_counterexample:
  "TagModel_delete no_faults (js ''t2'') loop_db
     = (Inr True, \<lparr>tags_table = [own_parent], places_table = [], place_tags_table = []\<rparr>)
   \<and> other_child_rows loop_db (tag_id own_parent) = [pizza]
   \<and> other_child_rows \<lparr>tags_table = [own_parent], places_table = [], place_tags_table = []\<rparr>
         (tag_id own_parent) = []
   \<and> has_children own_parent"
proof (intro conjI)
  show "TagModel_delete no_faults (js ''t2'') loop_db
     = (Inr True, \<lparr>tags_table = [own_parent], places_table = [], place_tags_table = []\<rparr>)"
    using cascade_loop_db
    by (simp add: tag_model_defs example_defs own_parent_def loop_db_def)
qed (simp_all add: other_child_rows_def child_rows_def loop_db_def own_parent_def example_defs)

text \<open>
  Claim C1, amended. In a store whose tag ids are distinct and not empty (the primary key
  of uuids), after any completed \<^verbatim>\<open>create\<close>, \<^verbatim>\<open>update\<close> or \<^verbatim>\<open>delete\<close> of a tag, every tag
  \<open>T\<close> for which the set of tags with \<^verbatim>\<open>parent_tag_id\<close> equal to its id has changed has
  \<^verbatim>\<open>has_children\<close> true if and only if at least one tag has \<^verbatim>\<open>parent_tag_id\<close> equal to the
  id of \<open>T\<close>, the tag \<open>T\<close> itself counted; when \<open>T\<close> is not its own parent that is: if and
  only if at least one other tag has. The flag is the result of that existence check on
  the store as it is, not a count.
\<close>

theorem C1_has_children_recomputed:
  assumes "distinct (map tag_id (tags_table d))"
    and "[] \<notin> tag_id ` set (tags_table d)"
    and "TagModel_create fails new_id now data d = (Inr row, d')
         \<or> TagModel_update fails now i data d = (Inr r, d')
         \<or> TagModel_delete fails i d = (Inr b, d')"
    and "T \<in> set (tags_table d')"
    and "tag_id ` set (child_rows d' (tag_id T)) \<noteq> tag_id ` set (child_rows d (tag_id T))"
  shows "has_children T = (child_rows d' (tag_id T) \<noteq> []) \<and>
         (parent_tag_id T \<noteq> Some (tag_id T) \<longrightarrow>
            has_children T = (other_child_rows d' (tag_id T) \<noteq> []))"
proof -
  have flag: "has_children T = (child_rows d' (tag_id T) \<noteq> [])"
    using assms(3)
  proof (elim disjE)
    assume "TagModel_create fails new_id now data d = (Inr row, d')"
    from create_flag [OF this assms(4,5)] show ?thesis .
  next
    assume "TagModel_update fails now i data d = (Inr r, d')"
    from update_flag [OF this assms(1,2,4,5)] show ?thesis .
  next
    assume "TagModel_delete fails i d = (Inr b, d')"
    from delete_flag [OF this assms(1,2,4,5)] show ?thesis .
  qed
  have "distinct (map tag_id (tags_table d'))"
    using assms(3) create_distinct update_distinct delete_distinct assms(1) by (elim disjE) blast+
  from other_child_rows_eq [OF this assms(4)] flag show ?thesis by simp
qed

theorem C1_has_children_recomputed_witness:
  "TagModel_delete no_faults (js ''t2'') village
     = (Inr True, \<lparr>tags_table = [food\<lparr>has_children := False\<rparr>], places_table = [joes_bar],
                   place_tags_table = [(js ''p1'', js ''t1'')]\<rparr>)
   \<and> child_rows village (js ''t1'') = [pizza]
   \<and> has_children (food\<lparr>has_children := False\<rparr>) =
       (child_rows \<lparr>tags_table = [food\<lparr>has_children := False\<rparr>], places_table = [joes_bar],
                    place_tags_table = [(js ''p1'', js ''t1'')]\<rparr> (js ''t1'') \<noteq> [])
   \<and> has_children (food\<lparr>has_children := False\<rparr>) =
       (other_child_rows \<lparr>tags_table = [food\<lparr>has_children := False\<rparr>],
                          places_table = [joes_bar],
                          place_tags_table = [(js ''p1'', js ''t1'')]\<rparr> (js ''t1'') \<noteq> [])"
proof -
  let ?d' = "\<lparr>tags_table = [food\<lparr>has_children := False\<rparr>], places_table = [joes_bar],
                   place_tags_table = [(js ''p1'', js ''t1'')]\<rparr>"
  let ?T = "food\<lparr>has_children := False\<rparr>"
  have run: "TagModel_delete no_faults (js ''t2'') village = (Inr True, ?d')"
    using cascade_village_pizza by (simp add: tag_model_defs example_defs)
  have h1: "distinct (map tag_id (tags_table village))" by (simp add: example_defs)
  have h2: "[] \<notin> tag_id ` set (tags_table village)" by (simp add: example_defs)
  have h4: "?T \<in> set (tags_table ?d')" by simp
  have id: "tag_id ?T = js ''t1''" by (simp add: food_def)
  have c0: "child_rows village (js ''t1'') = [pizza]"
    by (simp add: child_rows_def example_defs)
  have c1: "child_rows ?d' (js ''t1'') = []"
    by (simp add: child_rows_def example_defs)
  have h5: "tag_id ` set (child_rows ?d' (tag_id ?T)) \<noteq> tag_id ` set (child_rows village (tag_id ?T))"
    by (simp add: id c0 c1)
  from C1_has_children_recomputed [OF h1 h2 _ h4 h5, where fails = no_faults
      and i = "js ''t2''" and b = True] run
  have "has_children ?T = (child_rows ?d' (tag_id ?T) \<noteq> [])"
    and "parent_tag_id ?T \<noteq> Some (tag_id ?T) \<longrightarrow>
         has_children ?T = (other_child_rows ?d' (tag_id ?T) \<noteq> [])" by blast+
  moreover have "parent_tag_id ?T \<noteq> Some (tag_id ?T)" by (simp add: food_def)
  ultimately show ?thesis using run c0 id by simp
qed


subsection \<open>Updating a tag\<close>









subsection \<open>Deleting a tag\<close>

lemma doomed_root: "find_tag d i = Some tag \<Longrightarrow> i \<in> set (doomed d i)"
proof -
  assume "find_tag d i = Some tag"
  then have "tag \<in> set (tags_table d) \<and> tag_id tag = i" by (rule find_tag_Some)
  then have "i \<in> set (map tag_id (filter (\<lambda>t. tag_id t = i) (tags_table d)))" by force
  with cascade_superset show ?thesis unfolding doomed_def by blast
qed

lemma doomed_closed:
  "t \<in> set (tags_table d) \<Longrightarrow> parent_tag_id t = Some p \<Longrightarrow> p \<in> set (doomed d i) \<Longrightarrow>
   tag_id t \<in> set (doomed d i)"
  unfolding doomed_def by (rule cascade_closed)

text \<open>
  Claim C8. \<^verbatim>\<open>delete\<close> completes when none of its four statements fails. When it
  completes it returns true if and only if a tag with that id was there, and false with
  the store untouched otherwise. When it returns true: no junction row names the tag; the
  tag is gone; every tag that had it as parent is gone, and no tag that remains has a
  parent that was deleted; every junction row that remains was there before and names no
  deleted tag; the places are untouched; and the former parent, if there was one, has
  \<^verbatim>\<open>has_children\<close> equal to the existence of a tag below it in the new store.
\<close>

theorem C8_delete:
  "((\<forall>k < 4. \<not> fails k) \<longrightarrow> (\<exists>b d'. TagModel_delete fails i d = (Inr b, d')))
   \<and> (TagModel_delete fails i d = (Inr b, d') \<longrightarrow>
        b = (find_tag d i \<noteq> None) \<and> (\<not> b \<longrightarrow> d' = d) \<and>
        (b \<longrightarrow>
           (\<forall>(p, t) \<in> set (place_tags_table d'). t \<noteq> i) \<and>
           i \<notin> tag_id ` set (tags_table d') \<and>
           (\<forall>c \<in> set (tags_table d).
              parent_tag_id c = Some i \<longrightarrow> tag_id c \<notin> tag_id ` set (tags_table d')) \<and>
           (\<forall>c \<in> set (tags_table d'). \<forall>q. parent_tag_id c = Some q \<and>
              q \<in> tag_id ` set (tags_table d) \<longrightarrow> q \<in> tag_id ` set (tags_table d')) \<and>
           (\<forall>(p, t) \<in> set (place_tags_table d').
              (p, t) \<in> set (place_tags_table d) \<and>
              (t \<in> tag_id ` set (tags_table d) \<longrightarrow> t \<in> tag_id ` set (tags_table d'))) \<and>
           places_table d' = places_table d \<and>
           (\<forall>tag q T. find_tag d i = Some tag \<and> parent_tag_id tag = Some q \<and> q \<noteq> [] \<and>
              T \<in> set (tags_table d') \<and> tag_id T = q \<longrightarrow>
              has_children T = (child_rows d' q \<noteq> []))))"
proof (intro conjI impI)
  assume "\<forall>k < 4. \<not> fails k"
  then have "\<not> fails 0" "\<not> fails 1" "\<not> fails 2" "\<not> fails 3" by simp_all
  then show "\<exists>b d'. TagModel_delete fails i d = (Inr b, d')"
    by (auto simp: TagModel_delete_def query_def select_tag_by_id_def
          delete_place_tags_of_tag_def delete_tags_def updateHasChildren_if_def
          updateHasChildren_def set_has_children_def Let_def
          split: option.splits)
next
  assume run: "TagModel_delete fails i d = (Inr b, d')"
  from TagModel_delete_steps [OF run] show "b = (find_tag d i \<noteq> None)" by auto
next
  assume run: "TagModel_delete fails i d = (Inr b, d')" and "\<not> b"
  with TagModel_delete_steps [OF run] show "d' = d" by auto
next
  assume run: "TagModel_delete fails i d = (Inr b, d')" and b: b
  let ?gone = "doomed d i"
  from TagModel_delete_steps [OF run] b obtain tag d2 u where
    tag: "find_tag d i = Some tag"
    and d2: "d2 = d\<lparr>tags_table := filter (\<lambda>t. tag_id t \<notin> set ?gone) (tags_table d),
                    place_tags_table :=
                      filter (\<lambda>(p, t). t \<notin> set ?gone)
                        (filter (\<lambda>(p, t). t \<noteq> i) (place_tags_table d))\<rparr>"
    and up: "updateHasChildren_if (fails 3) (parent_tag_id tag) d2 = Inr (u, d')"
    by blast
  from updateHasChildren_if_result [OF up] have pt: "place_tags_table d' = place_tags_table d2"
    and pl: "places_table d' = places_table d2"
    and flag: "\<forall>q T. parent_tag_id tag = Some q \<and> q \<noteq> [] \<and> T \<in> set (tags_table d') \<and>
                 tag_id T = q \<longrightarrow> has_children T = (child_rows d' q \<noteq> [])"
    and l: "links d' = links d2"
    by blast+
  from updateHasChildren_if_ids [OF up]
  have ids: "tag_id ` set (tags_table d') = tag_id ` set (tags_table d2)" by (metis set_map)
  have ids2: "tag_id ` set (tags_table d2) = tag_id ` set (tags_table d) - set ?gone"
    by (auto simp: d2)
  have root: "i \<in> set ?gone" using tag by (rule doomed_root)
  show "\<forall>(p, t) \<in> set (place_tags_table d'). t \<noteq> i"
    by (auto simp: pt d2)
  show "i \<notin> tag_id ` set (tags_table d')"
    using root by (simp add: ids ids2)
  show "\<forall>c \<in> set (tags_table d).
              parent_tag_id c = Some i \<longrightarrow> tag_id c \<notin> tag_id ` set (tags_table d')"
    using root doomed_closed by (auto simp: ids ids2)
  show "\<forall>c \<in> set (tags_table d'). \<forall>q. parent_tag_id c = Some q \<and>
              q \<in> tag_id ` set (tags_table d) \<longrightarrow> q \<in> tag_id ` set (tags_table d')"
  proof (intro ballI allI impI)
    fix c q assume c: "c \<in> set (tags_table d')"
      and q: "parent_tag_id c = Some q \<and> q \<in> tag_id ` set (tags_table d)"
    from c have "(tag_id c, parent_tag_id c) \<in> set (links d')" by (force simp: links_def)
    with l have "(tag_id c, parent_tag_id c) \<in> set (links d2)" by simp
    then obtain c2 where c2: "c2 \<in> set (tags_table d2)" "tag_id c2 = tag_id c"
      "parent_tag_id c2 = parent_tag_id c" by (auto simp: links_def)
    then have c2d: "c2 \<in> set (tags_table d)" and ng: "tag_id c2 \<notin> set ?gone"
      by (auto simp: d2)
    have "q \<notin> set ?gone"
    proof
      assume "q \<in> set ?gone"
      with doomed_closed [OF c2d] c2(3) q have "tag_id c2 \<in> set ?gone" by simp
      with ng show False by simp
    qed
    with q show "q \<in> tag_id ` set (tags_table d')" by (simp add: ids ids2)
  qed
  show "\<forall>(p, t) \<in> set (place_tags_table d').
              (p, t) \<in> set (place_tags_table d) \<and>
              (t \<in> tag_id ` set (tags_table d) \<longrightarrow> t \<in> tag_id ` set (tags_table d'))"
    by (auto simp: pt d2 ids ids2)
  show "places_table d' = places_table d" by (simp add: pl d2)
  show "\<forall>tag q T. find_tag d i = Some tag \<and> parent_tag_id tag = Some q \<and> q \<noteq> [] \<and>
              T \<in> set (tags_table d') \<and> tag_id T = q \<longrightarrow>
              has_children T = (child_rows d' q \<noteq> [])"
    using flag tag by auto
qed


theorem C8_delete_witness:
  "TagModel_delete no_faults (js ''t1'') village
     = (Inr True, \<lparr>tags_table = [], places_table = [joes_bar], place_tags_table = []\<rparr>)
   \<and> find_tag village (js ''t1'') \<noteq> None
   \<and> js ''t1'' \<notin> tag_id ` set (tags_table
         \<lparr>tags_table = [], places_table = [joes_bar], place_tags_table = []\<rparr>)"
proof -
  let ?d' = "\<lparr>tags_table = [], places_table = [joes_bar], place_tags_table = []\<rparr>"
  have nf: "\<forall>k < 4. \<not> no_faults k" by (simp add: no_faults_def)
  have run: "TagModel_delete no_faults (js ''t1'') village = (Inr True, ?d')"
    using cascade_village_food by (simp add: tag_model_defs example_defs)
  from C8_delete [of no_faults "js ''t1''" village True ?d'] nf run
  have "True = (find_tag village (js ''t1'') \<noteq> None)"
    and "js ''t1'' \<notin> tag_id ` set (tags_table ?d')"
    by blast+
  with run show ?thesis by simp
qed


section \<open>Atomicity\<close>

text \<open>
  The operations wrapped in \<^verbatim>\<open>withTransaction\<close> leave the store as it was whenever they
  raise.
\<close>

lemma transactions_roll_back:
  "(PlaceModel_create fails new_id now data d = (Inl e, d') \<longrightarrow> d' = d) \<and>
   (PlaceModel_update fails now i data d = (Inl e, d') \<longrightarrow> d' = d) \<and>
   (TagModel_bulkSave fails gen now collate inputs d = (Inl e, d') \<longrightarrow> d' = d)"
  by (auto simp: PlaceModel_create_def PlaceModel_update_def TagModel_bulkSave_def
        withTransaction_def split: sum.splits prod.splits)

text \<open>
  Claim C2 says that tag delete and tag update with a parent change run in one
  transaction too. They do not: \<^verbatim>\<open>TagModel.delete\<close> and \<^verbatim>\<open>TagModel.update\<close> send each
  statement to the pool. When \<^verbatim>\<open>DELETE FROM tags\<close> fails, the junction rows of the tag are
  already gone and the tag is still there; when the recomputation fails after a delete or
  after a change of parent, the change stays and "food" keeps \<^verbatim>\<open>has_children\<close> true with
  no tag below it.
\<close>

theorem C2_tag_operations_not_atomic:
  "TagModel_delete (\<lambda>k. k = 2) (js ''t2'') village
     = (Inl StorageFailure, village\<lparr>place_tags_table := [(js ''p1'', js ''t1'')]\<rparr>)
   \<and> TagModel_delete (\<lambda>k. k = 3) (js ''t2'') village
     = (Inl StorageFailure, \<lparr>tags_table = [food], places_table = [joes_bar],
                             place_tags_table = [(js ''p1'', js ''t1'')]\<rparr>)
   \<and> TagModel_update (\<lambda>k. k = 2) 9 (js ''t2'') orphan_patch village
     = (Inl StorageFailure,
        village\<lparr>tags_table := [food, pizza\<lparr>parent_tag_id := None, tag_updated_at := 9\<rparr>]\<rparr>)"
proof (intro conjI)
  show "TagModel_delete (\<lambda>k. k = 2) (js ''t2'') village
     = (Inl StorageFailure, village\<lparr>place_tags_table := [(js ''p1'', js ''t1'')]\<rparr>)"
    by (simp add: tag_model_defs example_defs)
  show "TagModel_delete (\<lambda>k. k = 3) (js ''t2'') village
     = (Inl StorageFailure, \<lparr>tags_table = [food], places_table = [joes_bar],
                             place_tags_table = [(js ''p1'', js ''t1'')]\<rparr>)"
    using cascade_village_pizza by (simp add: tag_model_defs example_defs)
  show "TagModel_update (\<lambda>k. k = 2) 9 (js ''t2'') orphan_patch village
     = (Inl StorageFailure,
        village\<lparr>tags_table := [food, pizza\<lparr>parent_tag_id := None, tag_updated_at := 9\<rparr>]\<rparr>)"
    by (simp add: tag_model_defs example_defs orphan_patch_def)
qed


section \<open>Bulk save\<close>

text \<open>
  Claim C3 says that \<^verbatim>\<open>bulkSave\<close> twice gives the tag set of \<^verbatim>\<open>bulkSave\<close> once. In the
  example store, with the input that names "pizza" only: the first run deletes "food",
  the cascade deletes its child "pizza", and the update of "pizza" by the id recorded
  before the delete touches no row, so the tag set is empty; the second run finds no
  "pizza" and inserts it.
\<close>

theorem C3_bulkSave_not_idempotent:
  "TagModel_bulkSave no_faults (\<lambda>k. js ''n1'') 8 (\<lambda>v. v) [pizza_input] village
     = (Inr [], after_once)
   \<and> TagModel_bulkSave no_faults (\<lambda>k. js ''n2'') 9 (\<lambda>v. v) [pizza_input] after_once
     = (Inr [new_pizza], after_once\<lparr>tags_table := [new_pizza]\<rparr>)
   \<and> tag_triples after_once = {}
   \<and> tag_triples (after_once\<lparr>tags_table := [new_pizza]\<rparr>) = {(js ''pizza'', js ''Pizza'', 1)}"
proof (intro conjI)
  show "TagModel_bulkSave no_faults (\<lambda>k. js ''n1'') 8 (\<lambda>v. v) [pizza_input] village
     = (Inr [], after_once)"
    using cascade_village_food
    by (simp add: bulk_defs tag_model_defs example_defs pizza_input_def after_once_def)
  show "TagModel_bulkSave no_faults (\<lambda>k. js ''n2'') 9 (\<lambda>v. v) [pizza_input] after_once
     = (Inr [new_pizza], after_once\<lparr>tags_table := [new_pizza]\<rparr>)"
    by (simp add: bulk_defs tag_model_defs example_defs pizza_input_def after_once_def
          new_pizza_def)
  show "tag_triples after_once = {}" by (simp add: tag_triples_def after_once_def)
  show "tag_triples (after_once\<lparr>tags_table := [new_pizza]\<rparr>) = {(js ''pizza'', js ''Pizza'', 1)}"
    by (simp add: tag_triples_def new_pizza_def)
qed

end
